theory Spec2Isabelle
  imports Main "HOL-Library.AList" "HOL-Library.List_Lexorder" "HOL-Library.Char_ord"
begin

section \<open>Strings, property values and Go maps\<close>

text \<open>
  A Go \<^verbatim>\<open>string\<close> is a byte sequence and is modelled as \<^typ>\<open>string\<close> (a list of
  8-bit characters). \<^verbatim>\<open>sort.Strings\<close> orders strings bytewise and lexicographically,
  which is the order of \<^theory_text>\<open>List_Lexorder\<close> over \<^theory_text>\<open>Char_ord\<close>.

  A property value (\<^verbatim>\<open>interface{}\<close>) is one of the dynamic types the collectors store.
\<close>

datatype pvalue = VNil | VStr string | VBool bool | VInt int | VStrs "string list"

text \<open>
  An initialised \<^verbatim>\<open>map[string]interface{}\<close> is an association list with distinct keys;
  the order of the list stands for one order in which \<^verbatim>\<open>range\<close> may visit the entries.
  A map variable may also hold \<^verbatim>\<open>nil\<close>: reading a nil map finds nothing, ranging over it
  visits nothing, assigning into it panics.
\<close>

type_synonym props = "(string \<times> pvalue) list"
type_synonym gomap = "props option"

datatype error =
    NilMapAssignment
  | TimestampFormatError
  | ReadError string
  | CreateError string
  | EncodeError
  | WriteError string

definition wf_props :: "props \<Rightarrow> bool" where
  "wf_props al = distinct (map fst al)"

definition wf_gomap :: "gomap \<Rightarrow> bool" where
  "wf_gomap m = (case m of None \<Rightarrow> True | Some al \<Rightarrow> wf_props al)"

definition entries :: "gomap \<Rightarrow> props" where
  "entries m = (case m of None \<Rightarrow> [] | Some al \<Rightarrow> al)"

definition lookup :: "gomap \<Rightarrow> string \<Rightarrow> pvalue option" where
  "lookup m = map_of (entries m)"

text \<open>\<^verbatim>\<open>m[k]\<close> read as a value: the zero value (a nil interface) when the key is absent.\<close>

definition index :: "gomap \<Rightarrow> string \<Rightarrow> pvalue" where
  "index m k = (case lookup m k of None \<Rightarrow> VNil | Some v \<Rightarrow> v)"

text \<open>\<^verbatim>\<open>m[k] = v\<close>.\<close>

definition assign :: "gomap \<Rightarrow> string \<Rightarrow> pvalue \<Rightarrow> error + gomap" where
  "assign m k v = (case m of None \<Rightarrow> Inl NilMapAssignment
                           | Some al \<Rightarrow> Inr (Some (AList.update k v al)))"

subsection \<open>Formatting\<close>

fun Join :: "string list \<Rightarrow> string \<Rightarrow> string" where
  "Join [] sep = []"
| "Join [x] sep = x"
| "Join (x # y # xs) sep = x @ sep @ Join (y # xs) sep"

fun showNat :: "nat \<Rightarrow> string" where
  "showNat n = (if n < 10 then [''0123456789'' ! n]
                else showNat (n div 10) @ [''0123456789'' ! (n mod 10)])"

declare showNat.simps [simp del]

definition showInt :: "int \<Rightarrow> string" where
  "showInt i = (if i < 0 then ''-'' @ showNat (nat (- i)) else showNat (nat i))"

text \<open>The verb \<^verbatim>\<open>%v\<close> of \<^verbatim>\<open>fmt.Sprintf\<close> on the stored value types.\<close>

fun fmtV :: "pvalue \<Rightarrow> string" where
  "fmtV VNil = ''<nil>''"
| "fmtV (VStr s) = s"
| "fmtV (VBool b) = (if b then ''true'' else ''false'')"
| "fmtV (VInt i) = showInt i"
| "fmtV (VStrs xs) = ''['' @ Join xs '' '' @ '']''"

section \<open>The graph store (\<^verbatim>\<open>graph/graph.go\<close>)\<close>

record GraphNode =
  Kinds :: "string list"
  ID :: string
  Properties :: gomap

record GraphEdge =
  Kind :: string
  StartID :: "(string \<times> string) list"
  EndID :: "(string \<times> string) list"
  EdgeProperties :: gomap

text \<open>
  \<^verbatim>\<open>NodesByID\<close> and \<^verbatim>\<open>EdgeKeys\<close> are created by \<^verbatim>\<open>NewGraphBuilder\<close> and never set to
  nil, so they are plain association lists, read with \<^const>\<open>map_of\<close> and written with
  \<^const>\<open>AList.update\<close>. \<^verbatim>\<open>NodesByID\<close> holds pointers; every pointer is reachable through
  one entry only, so mutating the node behind it is an update of that entry.
\<close>

record GraphBuilder =
  NodesByID :: "(string \<times> GraphNode) list"
  Edges :: "GraphEdge list"
  EdgeKeys :: "(string \<times> bool) list"

definition NewGraphBuilder :: GraphBuilder where
  "NewGraphBuilder = \<lparr>NodesByID = [], Edges = [], EdgeKeys = []\<rparr>"

definition NodePrefix :: string where
  "NodePrefix = ''vCenter_''"

definition EdgePrefix :: string where
  "EdgePrefix = ''vCenter_''"

definition NodeTypeMap :: "(string \<times> string) list" where
  "NodeTypeMap =
    [(''vCenter'', ''vCenter''), (''RootFolder'', ''RootFolder''),
     (''Datacenter'', ''Datacenter''), (''Cluster'', ''Cluster''),
     (''ESXiHost'', ''ESXiHost''), (''ResourcePool'', ''ResourcePool''),
     (''vApp'', ''vApp''), (''VM'', ''VM''), (''VMTemplate'', ''VMTemplate''),
     (''Datastore'', ''Datastore''), (''DatastoreCluster'', ''DatastoreCluster''),
     (''Network'', ''Network''), (''StandardPortgroup'', ''StandardPortgroup''),
     (''DVSwitch'', ''DVSwitch''), (''DVPortgroup'', ''DVPortgroup''),
     (''Principal'', ''Principal''), (''User'', ''User''), (''Group'', ''Group''),
     (''Privilege'', ''Privilege''), (''Role'', ''Role''), (''Folder'', ''Folder''),
     (''IdentityDomain'', ''IdentityDomain'')]"

definition EdgeTypeMap :: "(string \<times> string) list" where
  "EdgeTypeMap =
    [(''CONTAINS'', ''Contains''), (''HOSTS'', ''Hosts''),
     (''HAS_PERMISSION'', ''HasPermission''), (''MEMBER_OF'', ''MemberOf''),
     (''USES_DATASTORE'', ''UsesDatastore''), (''USES_NETWORK'', ''UsesNetwork''),
     (''HAS_DATASTORE'', ''HasDatastore''), (''HAS_NETWORK'', ''HasNetwork''),
     (''MOUNTS'', ''Mounts''), (''HAS_PRIVILEGE'', ''HasPrivilege'')]"

text \<open>\<^verbatim>\<open>strings.ReplaceAll\<close> with a one-byte pattern and a one-byte replacement.\<close>

definition ReplaceAllChar :: "string \<Rightarrow> char \<Rightarrow> char \<Rightarrow> string" where
  "ReplaceAllChar s old new = map (\<lambda>c. if c = old then new else c) s"

definition FormatNodeKind :: "string \<Rightarrow> string" where
  "FormatNodeKind kind =
    (let mapped = (case map_of NodeTypeMap kind of Some m \<Rightarrow> m | None \<Rightarrow> kind);
         cleaned = ReplaceAllChar mapped (CHR ''.'') (CHR ''_'');
         cleaned = ReplaceAllChar cleaned (CHR ''-'') (CHR ''_'');
         cleaned = ReplaceAllChar cleaned (CHR '' '') (CHR ''_'')
     in if NodePrefix \<noteq> [] then NodePrefix @ cleaned else cleaned)"

definition FormatEdgeKind :: "string \<Rightarrow> string" where
  "FormatEdgeKind kind =
    (let mapped = (case map_of EdgeTypeMap kind of Some m \<Rightarrow> m | None \<Rightarrow> kind)
     in if EdgePrefix \<noteq> [] then EdgePrefix @ mapped else mapped)"

text \<open>
  \<^verbatim>\<open>propsToKey\<close>: the keys are collected in iteration order, sorted, and each is
  printed with its value as \<^verbatim>\<open>%v:%v\<close>; the parts are joined with a bar.
\<close>

definition propsToKey :: "gomap \<Rightarrow> string" where
  "propsToKey props =
    (if length (entries props) = 0 then []
     else let keys = sort (map fst (entries props));
              parts = map (\<lambda>k. k @ '':'' @ fmtV (index props k)) keys
          in Join parts ''|'')"

definition edgeKeyOf :: "string \<Rightarrow> string \<Rightarrow> string \<Rightarrow> gomap \<Rightarrow> string" where
  "edgeKeyOf kind startID endID properties =
     kind @ '':'' @ startID @ '':'' @ endID @ '':'' @ propsToKey properties"

definition orEmpty :: "gomap \<Rightarrow> gomap" where
  "orEmpty properties = (if properties = None then Some [] else properties)"

definition newEdge :: "string \<Rightarrow> string \<Rightarrow> string \<Rightarrow> gomap \<Rightarrow> GraphEdge" where
  "newEdge kind startID endID properties =
     \<lparr>Kind = FormatEdgeKind kind, StartID = [(''value'', startID)],
      EndID = [(''value'', endID)], EdgeProperties = properties\<rparr>"

definition AddEdge :: "string \<Rightarrow> string \<Rightarrow> string \<Rightarrow> gomap \<Rightarrow> GraphBuilder \<Rightarrow> GraphBuilder" where
  "AddEdge kind startID endID properties0 gb =
    (let properties = orEmpty properties0;
         edgeKey = edgeKeyOf kind startID endID properties
     in if map_of (EdgeKeys gb) edgeKey = Some True then gb
        else gb\<lparr>Edges := Edges gb @ [newEdge kind startID endID properties],
                EdgeKeys := AList.update edgeKey True (EdgeKeys gb)\<rparr>)"

text \<open>
  \<^verbatim>\<open>EnsureNode\<close>, the branch for an existing node: \<^verbatim>\<open>existingKindMap\<close> is filled from the
  node's kinds, then every incoming kind is formatted and appended unless the map has it.
\<close>

definition kindMapOf :: "string list \<Rightarrow> (string \<times> bool) list" where
  "kindMapOf ks = fold (\<lambda>k m. AList.update k True m) ks []"

fun unionKinds :: "string list \<Rightarrow> string list \<times> (string \<times> bool) list
    \<Rightarrow> string list \<times> (string \<times> bool) list" where
  "unionKinds [] s = s"
| "unionKinds (k # ks) (ekinds, kmap) =
    (let formatted = FormatNodeKind k
     in if map_of kmap formatted \<noteq> Some True
        then unionKinds ks (ekinds @ [formatted], AList.update formatted True kmap)
        else unionKinds ks (ekinds, kmap))"

text \<open>\<^verbatim>\<open>for k, v := range properties { existing.Properties[k] = v }\<close>\<close>

fun assignAll :: "props \<Rightarrow> gomap \<Rightarrow> error + gomap" where
  "assignAll [] m = Inr m"
| "assignAll ((k, v) # kvs) m =
    (case assign m k v of Inl e \<Rightarrow> Inl e | Inr m' \<Rightarrow> assignAll kvs m')"

text \<open>
  \<^verbatim>\<open>EnsureNode\<close> returns the node pointer, which no caller uses; the model returns the
  store, or the panic of an assignment into a nil property map. A new node keeps the
  caller's map as it is (nil included) and the formatted kinds as they come. Maps are
  values here: every caller passes a map of its own and does not write to it afterwards.
\<close>

definition EnsureNode :: "string list \<Rightarrow> string \<Rightarrow> gomap \<Rightarrow> GraphBuilder \<Rightarrow> error + GraphBuilder" where
  "EnsureNode kinds nodeID properties gb =
    (case map_of (NodesByID gb) nodeID of
       Some existing \<Rightarrow>
         (let ekinds = fst (unionKinds kinds (Kinds existing, kindMapOf (Kinds existing)))
          in case assignAll (entries properties) (Properties existing) of
               Inl e \<Rightarrow> Inl e
             | Inr ps \<Rightarrow>
                 Inr (gb\<lparr>NodesByID :=
                   AList.update nodeID (existing\<lparr>Kinds := ekinds, Properties := ps\<rparr>) (NodesByID gb)\<rparr>))
     | None \<Rightarrow>
         Inr (gb\<lparr>NodesByID :=
           AList.update nodeID
             \<lparr>Kinds = map FormatNodeKind kinds, ID = nodeID, Properties = properties\<rparr>
             (NodesByID gb)\<rparr>))"

subsection \<open>Sequences of \<^verbatim>\<open>EnsureNode\<close> calls on one node id\<close>

text \<open>
  A finite sequence of calls \<^verbatim>\<open>EnsureNode(kinds, X, properties)\<close> on the same id, run in
  order; a panic ends the run.
\<close>

fun EnsureNodeAll :: "(string list \<times> gomap) list \<Rightarrow> string \<Rightarrow> GraphBuilder \<Rightarrow> error + GraphBuilder" where
  "EnsureNodeAll [] X gb = Inr gb"
| "EnsureNodeAll ((kinds, properties) # calls) X gb =
    (case EnsureNode kinds X properties gb of
       Inl e \<Rightarrow> Inl e
     | Inr gb' \<Rightarrow> EnsureNodeAll calls X gb')"

text \<open>The kinds and the property values a node id has in a store (none when it is absent).\<close>

definition kindsOf :: "GraphBuilder \<Rightarrow> string \<Rightarrow> string list" where
  "kindsOf gb X = (case map_of (NodesByID gb) X of None \<Rightarrow> [] | Some n \<Rightarrow> Kinds n)"

definition propOf :: "GraphBuilder \<Rightarrow> string \<Rightarrow> string \<Rightarrow> pvalue option" where
  "propOf gb X k = (case map_of (NodesByID gb) X of None \<Rightarrow> None | Some n \<Rightarrow> lookup (Properties n) k)"

text \<open>
  The value the last call that supplies key \<open>k\<close> gives it, or \<open>init\<close> when no call
  supplies it.
\<close>

fun lastSupplied :: "(string list \<times> gomap) list \<Rightarrow> string \<Rightarrow> pvalue option \<Rightarrow> pvalue option" where
  "lastSupplied [] k init = init"
| "lastSupplied ((kinds, properties) # calls) k init =
    lastSupplied calls k (case lookup properties k of Some v \<Rightarrow> Some v | None \<Rightarrow> init)"

text \<open>The map \<open>kmap\<close> marks exactly the members of the list \<open>ks\<close>.\<close>

definition kmRep :: "(string \<times> bool) list \<Rightarrow> string list \<Rightarrow> bool" where
  "kmRep kmap ks = (\<forall>x. map_of kmap x = Some True \<longleftrightarrow> x \<in> set ks)"

section \<open>The permission collector\<close>

subsection \<open>Principals\<close>

definition backslash :: char where
  "backslash = CHR 0x5C"

text \<open>\<^verbatim>\<open>strings.Contains\<close> and \<^verbatim>\<open>strings.SplitN(s, sep, 2)\<close> for a one-byte separator.\<close>

definition Contains :: "string \<Rightarrow> char \<Rightarrow> bool" where
  "Contains s c = (c \<in> set s)"

definition SplitN2 :: "string \<Rightarrow> char \<Rightarrow> string list" where
  "SplitN2 s c =
    (if c \<in> set s then [takeWhile (\<lambda>x. x \<noteq> c) s, tl (dropWhile (\<lambda>x. x \<noteq> c) s)] else [s])"

text \<open>
  \<^verbatim>\<open>parsePrincipal\<close> of the permission collector. The reads \<^verbatim>\<open>parts[0]\<close> and \<^verbatim>\<open>parts[1]\<close>
  happen only under the \<^verbatim>\<open>Contains\<close> test, where the slice has two elements.
\<close>

definition parsePrincipal :: "string \<Rightarrow> string \<times> string" where
  "parsePrincipal pname =
    (if Contains pname backslash then
       (let parts = SplitN2 pname backslash in (parts ! 0, parts ! 1))
     else if Contains pname (CHR ''@'') then
       (let parts = SplitN2 pname (CHR ''@'') in (parts ! 1, parts ! 0))
     else ([], pname))"

text \<open>The method of the same name in \<^verbatim>\<open>collector.go\<close>, used for group members.\<close>

definition Collector_parsePrincipal :: "string \<Rightarrow> string \<times> string" where
  "Collector_parsePrincipal pname =
    (if Contains pname backslash then
       (let parts = SplitN2 pname backslash in (parts ! 0, parts ! 1))
     else if Contains pname (CHR ''@'') then
       (let parts = SplitN2 pname (CHR ''@'') in (parts ! 1, parts ! 0))
     else ([], pname))"

subsection \<open>Case mapping\<close>

text \<open>
  \<^verbatim>\<open>strings.ToLower\<close> on ASCII text: the letters are mapped, every other byte stays. (Go
  maps non-ASCII letters too; such text is outside this model.)
\<close>

definition lowerLetters :: string where
  "lowerLetters = ''abcdefghijklmnopqrstuvwxyz''"

definition upperLetters :: string where
  "upperLetters = ''ABCDEFGHIJKLMNOPQRSTUVWXYZ''"

definition toLowerChar :: "char \<Rightarrow> char" where
  "toLowerChar c = (case map_of (zip upperLetters lowerLetters) c of Some l \<Rightarrow> l | None \<Rightarrow> c)"

definition ToLower :: "string \<Rightarrow> string" where
  "ToLower s = map toLowerChar s"

subsection \<open>Permissions\<close>

record ManagedObjectReference =
  RefType :: string
  Value :: string

record Permission =
  Principal :: string
  Group :: bool
  PermRoleId :: int
  Entity :: "ManagedObjectReference option"
  Propagate :: bool

record AuthorizationRole =
  RoleId :: int
  Name :: string
  Privilege :: "string list"

record AuthorizationPrivilege =
  PrivId :: string
  PrivName :: string
  PrivGroupName :: string

definition isNoAccess :: "string \<Rightarrow> bool" where
  "isNoAccess roleName =
    (let l = ToLower roleName in l = ''no access'' \<or> l = ''noaccess'' \<or> l = ''no-access'')"

definition getID :: "ManagedObjectReference \<Rightarrow> string" where
  "getID ref = Value ref"

text \<open>
  \<^verbatim>\<open>getEntityKindAndID\<close>. For a \<^verbatim>\<open>ComputeResource\<close> the collector asks vCenter for the hosts
  of the resource; \<open>hostsOf\<close> stands for that call (\<open>None\<close> when it fails).
\<close>

definition getEntityKindAndID ::
    "string \<Rightarrow> (ManagedObjectReference \<Rightarrow> string list option) \<Rightarrow> ManagedObjectReference
     \<Rightarrow> string \<times> string" where
  "getEntityKindAndID host hostsOf ref =
    (let moid = getID ref in
     if RefType ref = ''Datacenter'' then (''Datacenter'', ''datacenter:'' @ host @ '':'' @ moid)
     else if RefType ref = ''ClusterComputeResource'' then
       (''Cluster'', ''cluster:'' @ host @ '':'' @ moid)
     else if RefType ref = ''HostSystem'' then (''ESXiHost'', ''esxi_host:'' @ host @ '':'' @ moid)
     else if RefType ref = ''ComputeResource'' then
       (case hostsOf ref of
          Some (hostMoid # _) \<Rightarrow> (''ESXiHost'', ''esxi_host:'' @ host @ '':'' @ hostMoid)
        | _ \<Rightarrow> (''ESXiHost'', ''esxi_host:'' @ host @ '':'' @ moid))
     else if RefType ref = ''VirtualMachine'' then (''VM'', ''vm:'' @ host @ '':'' @ moid)
     else if RefType ref = ''Folder'' then (''Folder'', ''folder:'' @ host @ '':'' @ moid)
     else (RefType ref, ToLower (RefType ref) @ '':'' @ host @ '':'' @ moid))"

text \<open>
  The role part of \<^verbatim>\<open>processPermission\<close>: name, privilege ids, privilege names (the id
  itself when the privilege is unknown), the sorted distinct privilege groups and the
  privilege count; all empty when the role id is unknown.
\<close>

definition roleInfo ::
    "(int \<rightharpoonup> AuthorizationRole) \<Rightarrow> (string \<rightharpoonup> AuthorizationPrivilege) \<Rightarrow> int
     \<Rightarrow> string \<times> string list \<times> string list \<times> string list \<times> int" where
  "roleInfo roles privMap roleID =
    (case roles roleID of
       None \<Rightarrow> ([], [], [], [], 0)
     | Some r \<Rightarrow>
         (let privNames =
                map (\<lambda>pid. case privMap pid of Some p \<Rightarrow> PrivName p | None \<Rightarrow> pid) (Privilege r);
              groupSet =
                fold (\<lambda>pid m. case privMap pid of
                                 Some p \<Rightarrow> AList.update (PrivGroupName p) True m
                               | None \<Rightarrow> m) (Privilege r) [];
              privGroups = sort (map fst groupSet)
          in (Name r, Privilege r, privNames, privGroups, int (length (Privilege r)))))"

definition principalNode :: "string \<Rightarrow> Permission \<Rightarrow> string list \<times> string \<times> gomap" where
  "principalNode host perm =
    (let pname = Principal perm;
         isGroup = Group perm;
         (domain, username) = parsePrincipal pname;
         principalID = (if isGroup then ''group:'' @ host @ '':'' @ pname
                        else ''user:'' @ host @ '':'' @ pname);
         kinds = (if isGroup then [''Group''] else [''User''])
     in (kinds, principalID,
         Some [(''name'', VStr pname), (''isGroup'', VBool isGroup),
               (''domain'', VStr domain), (''username'', VStr username)]))"

definition processPermission ::
    "string \<Rightarrow> (ManagedObjectReference \<Rightarrow> string list option) \<Rightarrow> Permission
     \<Rightarrow> (int \<rightharpoonup> AuthorizationRole) \<Rightarrow> (string \<rightharpoonup> AuthorizationPrivilege)
     \<Rightarrow> GraphBuilder \<Rightarrow> error + GraphBuilder" where
  "processPermission host hostsOf perm roles privMap gb =
    (let (kinds, principalID, principalProps) = principalNode host perm
     in case EnsureNode kinds principalID principalProps gb of
          Inl e \<Rightarrow> Inl e
        | Inr gb1 \<Rightarrow>
            (let roleID = PermRoleId perm;
                 (roleName, privIds, privNames, privGroups, privCount) =
                    roleInfo roles privMap roleID
             in if isNoAccess roleName then Inr gb1
                else case Entity perm of
                  None \<Rightarrow> Inr gb1
                | Some entityRef \<Rightarrow>
                    (let (entityKind, entityID) = getEntityKindAndID host hostsOf entityRef;
                         exists = (map_of (NodesByID gb1) entityID \<noteq> None);
                         nodeProps =
                           (if \<not> exists
                            then [(''moid'', VStr (getID entityRef)), (''name'', VStr (getID entityRef))]
                            else [(''moid'', VStr (getID entityRef))])
                     in case EnsureNode [entityKind] entityID (Some nodeProps) gb1 of
                          Inl e \<Rightarrow> Inl e
                        | Inr gb2 \<Rightarrow>
                            Inr (AddEdge ''HAS_PERMISSION'' principalID entityID
                                   (Some [(''roleId'', VInt roleID), (''roleName'', VStr roleName),
                                          (''propagate'', VBool (Propagate perm)),
                                          (''privilegeIds'', VStrs privIds),
                                          (''privilegeNames'', VStrs privNames),
                                          (''privilegeGroups'', VStrs privGroups),
                                          (''privilegeCount'', VInt privCount)]) gb2))))"

text \<open>Sample inputs: a user's assignment of the role "No Access" on a folder.\<close>

definition noAccessRoles :: "int \<rightharpoonup> AuthorizationRole" where
  "noAccessRoles = [- 5 \<mapsto> \<lparr>RoleId = - 5, Name = ''No Access'', Privilege = []\<rparr>]"

definition jdoePermission :: Permission where
  "jdoePermission =
     \<lparr>Principal = ''jdoe@corp.local'', Group = False, PermRoleId = - 5,
      Entity = Some \<lparr>RefType = ''Folder'', Value = ''group-d1''\<rparr>, Propagate = True\<rparr>"

definition noHosts :: "ManagedObjectReference \<Rightarrow> string list option" where
  "noHosts ref = None"

definition jdoeNode :: GraphNode where
  "jdoeNode =
     \<lparr>Kinds = [''vCenter_User''], ID = ''user:vc:jdoe@corp.local'',
      Properties = Some [(''name'', VStr ''jdoe@corp.local''), (''isGroup'', VBool False),
                         (''domain'', VStr ''corp.local''), (''username'', VStr ''jdoe'')]\<rparr>"

section \<open>Request signing (\<^verbatim>\<open>internal/bloodhound/client.go\<close>)\<close>

text \<open>
  A request as \<^verbatim>\<open>signRequest\<close> sees it. The body is absent (\<^verbatim>\<open>req.Body == nil\<close>), or a
  reader that fails, or a reader that yields bytes. Header names are kept as written.
\<close>

record Request =
  Method :: string
  URLPath :: string
  RawQuery :: string
  Body :: "(string + string) option"
  Header :: "(string \<times> string) list"

record Client =
  URL :: string
  KeyID :: string
  KeySecret :: string




definition setHeaders :: "Client \<Rightarrow> string \<Rightarrow> string \<Rightarrow> Request \<Rightarrow> Request" where
  "setHeaders c ts signature req =
     req\<lparr>Header :=
       AList.update ''Signature'' signature
         (AList.update ''RequestDate'' ts
           (AList.update ''Authorization'' (''bhesignature '' @ KeyID c) (Header req)))\<rparr>"


text \<open>The \<^verbatim>\<open>Signature\<close> header of a signing result, or its error.\<close>

definition signatureOf :: "error + Request \<Rightarrow> error + string option" where
  "signatureOf r = (case r of Inl e \<Rightarrow> Inl e | Inr req \<Rightarrow> Inr (map_of (Header req) ''Signature''))"





section \<open>Domain sync edges (\<^verbatim>\<open>internal/postprocess/processor.go\<close>)\<close>

text \<open>\<^verbatim>\<open>strings.Split\<close> with a one-byte separator: the fields between the separators.\<close>

fun Split :: "string \<Rightarrow> char \<Rightarrow> string list" where
  "Split [] c = [[]]"
| "Split (x # xs) c =
    (if x = c then [] # Split xs c
     else (case Split xs c of [] \<Rightarrow> [[x]] | w # ws \<Rightarrow> (x # w) # ws))"

text \<open>
  \<^verbatim>\<open>strings.ToUpper\<close> is library code that upper-cases every Unicode letter; the
  definitions below take it as the parameter \<open>upper\<close> and use nothing about it.

  The loop of \<^verbatim>\<open>GetDomainMap\<close> over the names of the response, in order: each name is
  upper-cased and stored under its first dot-delimited label; a later name with the same
  label replaces an earlier one.
\<close>

definition domainMapOf :: "(string \<Rightarrow> string) \<Rightarrow> string list \<Rightarrow> (string \<rightharpoonup> string)" where
  "domainMapOf upper names =
    fold (\<lambda>name domainMap.
            let fqdn = upper name; parts = Split fqdn (CHR ''.'')
            in if length parts > 0 then domainMap(parts ! 0 \<mapsto> fqdn) else domainMap)
         names Map.empty"

definition firstLabel :: "string \<Rightarrow> string" where
  "firstLabel fqdn = takeWhile (\<lambda>x. x \<noteq> CHR ''.'') fqdn"

text \<open>One step of that loop, with the first field written as \<^const>\<open>firstLabel\<close>.\<close>

definition putDomain ::
    "(string \<Rightarrow> string) \<Rightarrow> string \<Rightarrow> (string \<rightharpoonup> string) \<Rightarrow> (string \<rightharpoonup> string)" where
  "putDomain upper name m = m(firstLabel (upper name) \<mapsto> upper name)"

text \<open>
  A call \<^verbatim>\<open>AddRawEdgeWithMatch(kind, start, startMatchBy, end, endMatchBy, props)\<close>. The
  builder of \<^verbatim>\<open>internal/graph\<close> is not among the sources; the loop of \<^verbatim>\<open>Run\<close> is
  modelled by the calls it makes, and the builder's method is a parameter.
\<close>

record RawEdgeCall =
  CallKind :: string
  CallStart :: string
  CallStartMatchBy :: string
  CallEnd :: string
  CallEndMatchBy :: string
  CallProps :: gomap

text \<open>\<^verbatim>\<open>v, _ := m[k].(string)\<close>: the string, or the empty string for any other value.\<close>

definition asString :: "pvalue \<Rightarrow> string" where
  "asString v = (case v of VStr s \<Rightarrow> s | _ \<Rightarrow> [])"

definition propString :: "GraphNode \<Rightarrow> string \<Rightarrow> string" where
  "propString node k = asString (index (Properties node) k)"

definition kindFlags :: "string list \<Rightarrow> bool \<times> bool" where
  "kindFlags kinds =
    fold (\<lambda>k (isUser, isGroup).
            if k = ''vCenter_User'' then (True, isGroup)
            else if k = ''vCenter_Group'' then (isUser, True)
            else (isUser, isGroup))
         kinds (False, False)"

text \<open>The body of the loop over the loaded nodes: the call it makes for one node, if any.\<close>

definition syncEdge ::
    "(string \<Rightarrow> string) \<Rightarrow> (string \<rightharpoonup> string) \<Rightarrow> GraphNode \<Rightarrow> RawEdgeCall option" where
  "syncEdge upper DomainMap node =
    (let (isUser, isGroup) = kindFlags (Kinds node)
     in if \<not> isUser \<and> \<not> isGroup then None
        else let name = propString node ''name'';
                 username = propString node ''username'';
                 domain = propString node ''domain'';
                 id = ID node
             in if name = [] \<or> domain = [] then None
                else case DomainMap (upper domain) of
                       None \<Rightarrow> None
                     | Some fqdn \<Rightarrow>
                         (let adPrincipalID = upper username @ ''@'' @ fqdn
                          in if isUser then
                               Some \<lparr>CallKind = ''SyncsTovCenterUser'', CallStart = adPrincipalID,
                                     CallStartMatchBy = ''name'', CallEnd = id,
                                     CallEndMatchBy = [], CallProps = None\<rparr>
                             else if isGroup then
                               Some \<lparr>CallKind = ''SyncsTovCenterGroup'', CallStart = adPrincipalID,
                                     CallStartMatchBy = ''name'', CallEnd = id,
                                     CallEndMatchBy = [], CallProps = None\<rparr>
                             else None))"

definition syncEdges ::
    "(RawEdgeCall \<Rightarrow> 'gb \<Rightarrow> 'gb) \<Rightarrow> (string \<Rightarrow> string) \<Rightarrow> (string \<rightharpoonup> string)
     \<Rightarrow> GraphNode list \<Rightarrow> 'gb \<Rightarrow> 'gb" where
  "syncEdges AddRawEdgeWithMatch upper DomainMap nodes gb =
    fold (\<lambda>node g. case syncEdge upper DomainMap node of
                      None \<Rightarrow> g
                    | Some call \<Rightarrow> AddRawEdgeWithMatch call g)
         nodes gb"

text \<open>
  For the sample inputs, which are ASCII text: on such text \<^verbatim>\<open>strings.ToUpper\<close> maps the
  26 lower-case letters and leaves every other byte as it is.
\<close>

definition toUpperASCIIChar :: "char \<Rightarrow> char" where
  "toUpperASCIIChar c =
     (case map_of (zip lowerLetters upperLetters) c of Some u \<Rightarrow> u | None \<Rightarrow> c)"

definition ToUpperASCII :: "string \<Rightarrow> string" where
  "ToUpperASCII s = map toUpperASCIIChar s"

text \<open>Sample nodes: the principal \<^verbatim>\<open>CORP\admin\<close>, and a principal with an empty user name.\<close>

definition adminNode :: GraphNode where
  "adminNode =
     \<lparr>Kinds = [''vCenter_User''], ID = ''user:vc:CORP'' @ [backslash] @ ''admin'',
      Properties = Some [(''name'', VStr (''CORP'' @ [backslash] @ ''admin'')),
                         (''isGroup'', VBool False), (''domain'', VStr ''CORP''),
                         (''username'', VStr ''admin'')]\<rparr>"

definition otherNode :: GraphNode where
  "otherNode =
     \<lparr>Kinds = [''vCenter_Group''], ID = ''group:vc:OTHER'' @ [backslash] @ ''ops'',
      Properties = Some [(''name'', VStr (''OTHER'' @ [backslash] @ ''ops'')),
                         (''isGroup'', VBool True), (''domain'', VStr ''OTHER''),
                         (''username'', VStr ''ops'')]\<rparr>"

definition namelessNode :: GraphNode where
  "namelessNode =
     \<lparr>Kinds = [''vCenter_User''], ID = ''user:vc:CORP'' @ [backslash],
      Properties = Some [(''name'', VStr (''CORP'' @ [backslash])),
                         (''isGroup'', VBool False), (''domain'', VStr ''CORP''),
                         (''username'', VStr [])]\<rparr>"

section \<open>Merging the graph of one source (\<^verbatim>\<open>vCenterHoundGo/main.go\<close>)\<close>

text \<open>
  The inner loop of the merge: every property of the other node whose key the existing
  node lacks is assigned to the existing node.
\<close>

fun mergeProperties :: "props \<Rightarrow> gomap \<Rightarrow> error + gomap" where
  "mergeProperties [] existing = Inr existing"
| "mergeProperties ((k, v) # kvs) existing =
    (if lookup existing k = None then
       (case assign existing k v of
          Inl e \<Rightarrow> Inl e
        | Inr existing' \<Rightarrow> mergeProperties kvs existing')
     else mergeProperties kvs existing)"

text \<open>
  The loop over \<^verbatim>\<open>gb.NodesByID\<close>. The target entry is found by the node's own id; a node
  the target lacks is stored as it is.
\<close>

fun mergeNodes :: "(string \<times> GraphNode) list \<Rightarrow> GraphBuilder \<Rightarrow> error + GraphBuilder" where
  "mergeNodes [] mergedGraph = Inr mergedGraph"
| "mergeNodes ((key, node) # rest) mergedGraph =
    (case map_of (NodesByID mergedGraph) (ID node) of
       Some existing \<Rightarrow>
         (case mergeProperties (entries (Properties node)) (Properties existing) of
            Inl e \<Rightarrow> Inl e
          | Inr ps \<Rightarrow>
              mergeNodes rest
                (mergedGraph\<lparr>NodesByID :=
                   AList.update (ID node) (existing\<lparr>Properties := ps\<rparr>) (NodesByID mergedGraph)\<rparr>))
     | None \<Rightarrow>
         mergeNodes rest
           (mergedGraph\<lparr>NodesByID := AList.update (ID node) node (NodesByID mergedGraph)\<rparr>))"

text \<open>The loop over \<^verbatim>\<open>gb.Edges\<close>: every edge is appended; \<^verbatim>\<open>EdgeKeys\<close> is not consulted.\<close>

definition mergeEdges :: "GraphEdge list \<Rightarrow> GraphBuilder \<Rightarrow> GraphBuilder" where
  "mergeEdges edges mergedGraph =
     fold (\<lambda>edge mg. mg\<lparr>Edges := Edges mg @ [edge]\<rparr>) edges mergedGraph"

definition mergeGraph :: "GraphBuilder \<Rightarrow> GraphBuilder \<Rightarrow> error + GraphBuilder" where
  "mergeGraph gb mergedGraph =
    (case mergeNodes (NodesByID gb) mergedGraph of
       Inl e \<Rightarrow> Inl e
     | Inr mg \<Rightarrow> Inr (mergeEdges (Edges gb) mg))"

text \<open>
  Stores as the collectors build them: every node is stored under its own id, ids are
  not repeated, and every property map is an initialised map with distinct keys (each
  \<^verbatim>\<open>EnsureNode\<close> call of the collectors passes a map literal).
\<close>

definition nodeOk :: "string \<times> GraphNode \<Rightarrow> bool" where
  "nodeOk kn = (ID (snd kn) = fst kn \<and> Properties (snd kn) \<noteq> None \<and> wf_gomap (Properties (snd kn)))"

definition storeOk :: "GraphBuilder \<Rightarrow> bool" where
  "storeOk gb = (distinct (map fst (NodesByID gb)) \<and> list_all nodeOk (NodesByID gb))"

text \<open>The property value of a merged node: the target's when it has the key, else the other's.\<close>

definition firstWins :: "gomap \<Rightarrow> gomap \<Rightarrow> string \<Rightarrow> pvalue option" where
  "firstWins target other k =
     (case lookup target k of Some v \<Rightarrow> Some v | None \<Rightarrow> lookup other k)"

text \<open>Sample stores: two sources that both know the folder \<^verbatim>\<open>f\<close>.\<close>

definition firstSource :: GraphBuilder where
  "firstSource =
     \<lparr>NodesByID = [(''f'', \<lparr>Kinds = [''vCenter_Folder''], ID = ''f'',
                             Properties = Some [(''name'', VStr ''Datacenters'')]\<rparr>)],
      Edges = [newEdge ''CONTAINS'' ''v'' ''f'' (Some [])],
      EdgeKeys = [(''CONTAINS:v:f:'', True)]\<rparr>"

definition secondSource :: GraphBuilder where
  "secondSource =
     \<lparr>NodesByID = [(''f'', \<lparr>Kinds = [''vCenter_Folder'', ''vCenter_RootFolder''], ID = ''f'',
                             Properties = Some [(''name'', VStr ''group-d1''),
                                                (''moid'', VStr ''group-d1'')]\<rparr>),
                    (''g'', \<lparr>Kinds = [''vCenter_VM''], ID = ''g'',
                             Properties = Some [(''name'', VStr ''vm1'')]\<rparr>)],
      Edges = [newEdge ''CONTAINS'' ''v'' ''f'' (Some [])],
      EdgeKeys = [(''CONTAINS:v:f:'', True)]\<rparr>"

definition mergedSample :: GraphBuilder where
  "mergedSample =
     \<lparr>NodesByID = [(''f'', \<lparr>Kinds = [''vCenter_Folder''], ID = ''f'',
                             Properties = Some [(''name'', VStr ''Datacenters''),
                                                (''moid'', VStr ''group-d1'')]\<rparr>),
                    (''g'', \<lparr>Kinds = [''vCenter_VM''], ID = ''g'',
                             Properties = Some [(''name'', VStr ''vm1'')]\<rparr>)],
      Edges = [newEdge ''CONTAINS'' ''v'' ''f'' (Some []), newEdge ''CONTAINS'' ''v'' ''f'' (Some [])],
      EdgeKeys = [(''CONTAINS:v:f:'', True)]\<rparr>"

section \<open>Writing the output document\<close>

text \<open>
  A file system as a map from path to content; bytes are characters. The JSON encoder is
  library code: its output is an argument, absent when encoding fails.
\<close>

type_synonym files = "string \<rightharpoonup> string"

definition bom :: string where
  "bom = [CHR 0xEF, CHR 0xBB, CHR 0xBF]"

text \<open>
  The save step of \<^verbatim>\<open>vCenterHoundGo/main.go\<close>: the encoded document is prefixed with the
  byte-order mark and written with \<^verbatim>\<open>ioutil.WriteFile\<close>. A failure of the encoder or of
  the write ends the program.
\<close>

definition saveWithBOM :: "string option \<Rightarrow> (string \<Rightarrow> bool) \<Rightarrow> string \<Rightarrow> files \<Rightarrow> error + files" where
  "saveWithBOM encoded writable outPath fs =
    (case encoded of
       None \<Rightarrow> Inl EncodeError
     | Some json \<Rightarrow>
         (let data = json; fullData = bom @ data
          in if writable outPath then Inr (fs(outPath \<mapsto> fullData))
             else Inl (WriteError outPath)))"

text \<open>
  \<^verbatim>\<open>output.WriteToFile\<close>: the file is created (and emptied), then the encoder writes the
  object \<^verbatim>\<open>{"graph": ...}\<close>, indented by two spaces, and a newline, straight into the
  file. \<open>graphJson\<close> is the indented encoding of the graph data. The result is the error
  returned (if any) and the files afterwards.
\<close>

definition encodeOutput :: "string \<Rightarrow> string" where
  "encodeOutput graphJson =
     ''{'' @ [CHR 0x0A] @ ''  '' @ [CHR 0x22] @ ''graph'' @ [CHR 0x22] @ '': '' @ graphJson
       @ [CHR 0x0A] @ ''}'' @ [CHR 0x0A]"

definition WriteToFile ::
    "(string \<Rightarrow> bool) \<Rightarrow> string option \<Rightarrow> string \<Rightarrow> files \<Rightarrow> error option \<times> files" where
  "WriteToFile creatable graphJson filename fs =
    (if \<not> creatable filename then (Some (CreateError filename), fs)
     else case graphJson of
            None \<Rightarrow> (Some EncodeError, fs(filename \<mapsto> []))
          | Some j \<Rightarrow> (None, fs(filename \<mapsto> encodeOutput j)))"

text \<open>Sample inputs: a directory where every file can be created, and a small document.\<close>

definition anyPath :: "string \<Rightarrow> bool" where
  "anyPath path = True"

definition noFiles :: files where
  "noFiles = Map.empty"

section \<open>Edge deduplication\<close>

lemma entries_simps [simp]: "entries None = []" "entries (Some al) = al"
  by (simp_all add: entries_def)

lemma sort_keys_unique:
  assumes "distinct xs" "distinct ys" "set xs = set ys"
  shows "sort xs = sort (ys :: string list)"
proof -
  have "sorted (sort xs)" "sorted (sort ys)" by simp_all
  moreover have "distinct (sort xs)" "distinct (sort ys)" using assms by simp_all
  moreover have "set (sort xs) = set (sort ys)" using assms by simp
  ultimately show ?thesis by (simp add: sorted_distinct_set_unique)
qed

lemma same_entries_map_of:
  assumes "wf_gomap P1" "wf_gomap P2" "set (entries P1) = set (entries P2)"
  shows "map_of (entries P1) = map_of (entries P2)"
  using assms by (cases P1; cases P2) (auto simp: wf_gomap_def wf_props_def map_of_inject_set)

lemma propsToKey_same_entries:
  assumes "wf_gomap P1" "wf_gomap P2" "set (entries P1) = set (entries P2)"
  shows "propsToKey P1 = propsToKey P2"
proof -
  have m: "map_of (entries P1) = map_of (entries P2)"
    using assms by (rule same_entries_map_of)
  have d1: "distinct (map fst (entries P1))" and d2: "distinct (map fst (entries P2))"
    using assms(1,2) by (auto simp: wf_gomap_def wf_props_def split: option.splits)
  have "set (map fst (entries P1)) = set (map fst (entries P2))"
    using assms(3) by simp
  with d1 d2 have k: "sort (map fst (entries P1)) = sort (map fst (entries P2))"
    by (rule sort_keys_unique)
  have e: "(entries P1 = []) = (entries P2 = [])"
    using assms(3) by (metis set_empty)
  have i: "index P1 = index P2"
    using m by (simp add: fun_eq_iff index_def lookup_def)
  show ?thesis
    using k e i by (simp add: propsToKey_def)
qed

lemma Join_append:
  "Join (xs @ x # ys) sep = concat (map (\<lambda>p. p @ sep) xs) @ x @ concat (map (\<lambda>p. sep @ p) ys)"
proof (induction xs)
  case Nil
  show ?case by (induction ys arbitrary: x) simp_all
next
  case (Cons a xs)
  then show ?case by (cases xs) simp_all
qed


lemma wf_orEmpty: "wf_gomap P \<Longrightarrow> wf_gomap (orEmpty P)"
  by (cases P) (simp_all add: orEmpty_def wf_gomap_def wf_props_def)

lemma entries_orEmpty [simp]: "entries (orEmpty P) = entries P"
  by (cases P) (simp_all add: orEmpty_def)

lemma edgeKeyOf_same_entries:
  assumes "wf_gomap P1" "wf_gomap P2" "set (entries P1) = set (entries P2)"
  shows "edgeKeyOf k s e (orEmpty P1) = edgeKeyOf k s e (orEmpty P2)"
proof -
  have "propsToKey (orEmpty P1) = propsToKey (orEmpty P2)"
    using assms by (intro propsToKey_same_entries wf_orEmpty) simp_all
  then show ?thesis by (simp add: edgeKeyOf_def)
qed

lemma AddEdge_seen:
  "map_of (EdgeKeys (AddEdge k s e P gb)) (edgeKeyOf k s e (orEmpty P)) = Some True"
  by (simp add: AddEdge_def Let_def update_conv')

lemma AddEdge_dup:
  "map_of (EdgeKeys gb) (edgeKeyOf k s e (orEmpty P)) = Some True \<Longrightarrow> AddEdge k s e P gb = gb"
  by (simp add: AddEdge_def Let_def)

lemma AddEdge_fresh:
  "map_of (EdgeKeys gb) (edgeKeyOf k s e (orEmpty P)) \<noteq> Some True \<Longrightarrow>
   AddEdge k s e P gb =
     gb\<lparr>Edges := Edges gb @ [newEdge k s e (orEmpty P)],
        EdgeKeys := AList.update (edgeKeyOf k s e (orEmpty P)) True (EdgeKeys gb)\<rparr>"
  by (simp add: AddEdge_def Let_def)

lemma AddEdge_nodes [simp]: "NodesByID (AddEdge k s e P gb) = NodesByID gb"
  by (simp add: AddEdge_def Let_def)

lemma AddEdge_unchanged_iff:
  "AddEdge k s e P gb = gb \<longleftrightarrow> map_of (EdgeKeys gb) (edgeKeyOf k s e (orEmpty P)) = Some True"
proof
  assume eq: "AddEdge k s e P gb = gb"
  show "map_of (EdgeKeys gb) (edgeKeyOf k s e (orEmpty P)) = Some True"
  proof (rule ccontr)
    assume "map_of (EdgeKeys gb) (edgeKeyOf k s e (orEmpty P)) \<noteq> Some True"
    then have "length (Edges (AddEdge k s e P gb)) = Suc (length (Edges gb))"
      by (simp add: AddEdge_fresh)
    with eq show False by simp
  qed
qed (rule AddEdge_dup)

lemma sorted_keys_same_dom:
  assumes "wf_gomap P1" "wf_gomap P2" "dom (lookup P1) = dom (lookup P2)"
  shows "sort (map fst (entries P1)) = sort (map fst (entries P2))"
proof -
  have d1: "distinct (map fst (entries P1))" and d2: "distinct (map fst (entries P2))"
    using assms(1,2) by (auto simp: wf_gomap_def wf_props_def split: option.splits)
  have "set (map fst (entries P1)) = set (map fst (entries P2))"
    using assms(3) by (simp add: lookup_def dom_map_of_conv_image_fst)
  with d1 d2 show ?thesis by (rule sort_keys_unique)
qed

lemma propsToKey_differ_at:
  assumes wf: "wf_gomap P1" "wf_gomap P2"
    and l1: "lookup P1 kk = Some v1" and l2: "lookup P2 kk = Some v2"
    and others: "\<forall>k. k \<noteq> kk \<longrightarrow> lookup P1 k = lookup P2 k"
    and ne: "\<And>r. fmtV v1 @ r \<noteq> fmtV v2 @ r"
  shows "propsToKey P1 \<noteq> propsToKey P2"
proof -
  have dom: "dom (lookup P1) = dom (lookup P2)"
  proof (rule set_eqI)
    fix k show "k \<in> dom (lookup P1) \<longleftrightarrow> k \<in> dom (lookup P2)"
      using l1 l2 others by (cases "k = kk") auto
  qed
  define ks where "ks = sort (map fst (entries P1))"
  have ks2: "sort (map fst (entries P2)) = ks"
    using sorted_keys_same_dom[OF wf dom] by (simp add: ks_def)
  have "kk \<in> dom (lookup P1)" using l1 by auto
  then have kin: "kk \<in> set ks"
    by (simp add: ks_def lookup_def dom_map_of_conv_image_fst)
  have dks: "distinct ks"
    using wf(1) by (auto simp: ks_def wf_gomap_def wf_props_def split: option.splits)
  from kin obtain pre post where split: "ks = pre @ kk # post"
    by (auto simp: in_set_conv_decomp)
  with dks have npre: "kk \<notin> set pre" and npost: "kk \<notin> set post" by auto
  define f1 where "f1 = (\<lambda>k. k @ '':'' @ fmtV (index P1 k))"
  define f2 where "f2 = (\<lambda>k. k @ '':'' @ fmtV (index P2 k))"
  have same: "k \<noteq> kk \<Longrightarrow> f1 k = f2 k" for k
    using others by (simp add: f1_def f2_def index_def)
  have pre: "map f1 pre = map f2 pre"
  proof (rule map_cong[OF refl])
    fix x assume "x \<in> set pre"
    with npre have "x \<noteq> kk" by auto
    then show "f1 x = f2 x" by (rule same)
  qed
  have post: "map f1 post = map f2 post"
  proof (rule map_cong[OF refl])
    fix x assume "x \<in> set post"
    with npost have "x \<noteq> kk" by auto
    then show "f1 x = f2 x" by (rule same)
  qed
  have ne1: "entries P1 \<noteq> []" using l1 by (auto simp: lookup_def)
  have ne2: "entries P2 \<noteq> []" using l2 by (auto simp: lookup_def)
  have k1: "propsToKey P1 = Join (map f1 ks) ''|''"
    using ne1 by (simp add: propsToKey_def ks_def f1_def)
  have k2: "propsToKey P2 = Join (map f2 ks) ''|''"
    using ne2 ks2 by (simp add: propsToKey_def f2_def)
  define A where "A = concat (map (\<lambda>p. p @ ''|'') (map f2 pre))"
  define B where "B = concat (map (\<lambda>p. ''|'' @ p) (map f2 post))"
  have j1: "propsToKey P1 = A @ f1 kk @ B"
    unfolding k1 split by (simp add: Join_append pre post A_def B_def)
  have j2: "propsToKey P2 = A @ f2 kk @ B"
    unfolding k2 split by (simp add: Join_append A_def B_def)
  have "f1 kk @ B \<noteq> f2 kk @ B"
    using ne[of B] l1 l2 by (simp add: f1_def f2_def index_def)
  then show ?thesis by (simp add: j1 j2)
qed

lemma fmtV_bool_differ: "b1 \<noteq> b2 \<Longrightarrow> fmtV (VBool b1) @ r \<noteq> fmtV (VBool b2) @ r"
  by (cases b1; cases b2) simp_all

lemma edgeKeyOf_propagate:
  assumes "wf_gomap P1" "wf_gomap P2"
    and "lookup P1 ''propagate'' = Some (VBool b1)"
    and "lookup P2 ''propagate'' = Some (VBool b2)" and "b1 \<noteq> b2"
    and "\<forall>k. k \<noteq> ''propagate'' \<longrightarrow> lookup P1 k = lookup P2 k"
  shows "edgeKeyOf k s e P1 \<noteq> edgeKeyOf k s e P2"
proof -
  have "propsToKey P1 \<noteq> propsToKey P2"
    using assms(1,2,3,4,6) fmtV_bool_differ[OF assms(5)] by (rule propsToKey_differ_at)
  then show ?thesis by (simp add: edgeKeyOf_def)
qed


lemma AddEdge_twice_same:
  assumes "wf_gomap P1" "wf_gomap P2" "set (entries P1) = set (entries P2)"
  shows "AddEdge k s e P2 (AddEdge k s e P1 gb) = AddEdge k s e P1 gb"
proof -
  have "edgeKeyOf k s e (orEmpty P2) = edgeKeyOf k s e (orEmpty P1)"
    using assms by (intro edgeKeyOf_same_entries) simp_all
  then have "map_of (EdgeKeys (AddEdge k s e P1 gb)) (edgeKeyOf k s e (orEmpty P2)) = Some True"
    by (simp add: AddEdge_seen)
  then show ?thesis by (rule AddEdge_dup)
qed

lemma orEmpty_nonempty: "lookup P kk = Some v \<Longrightarrow> orEmpty P = P"
  by (cases P) (simp_all add: orEmpty_def lookup_def)

lemma AddEdge_two_fresh:
  assumes k12: "edgeKeyOf k s e (orEmpty P1) \<noteq> edgeKeyOf k s e (orEmpty P2)"
    and f1: "map_of (EdgeKeys gb) (edgeKeyOf k s e (orEmpty P1)) \<noteq> Some True"
    and f2: "map_of (EdgeKeys gb) (edgeKeyOf k s e (orEmpty P2)) \<noteq> Some True"
  shows "Edges (AddEdge k s e P2 (AddEdge k s e P1 gb)) =
         Edges gb @ [newEdge k s e (orEmpty P1), newEdge k s e (orEmpty P2)]"
proof -
  let ?g = "AddEdge k s e P1 gb"
  have g: "?g = gb\<lparr>Edges := Edges gb @ [newEdge k s e (orEmpty P1)],
        EdgeKeys := AList.update (edgeKeyOf k s e (orEmpty P1)) True (EdgeKeys gb)\<rparr>"
    using f1 by (rule AddEdge_fresh)
  have "map_of (EdgeKeys ?g) (edgeKeyOf k s e (orEmpty P2)) \<noteq> Some True"
    using f2 k12 by (simp add: g update_conv')
  then show ?thesis by (simp add: AddEdge_fresh) (simp add: g)
qed

text \<open>
  Claim C1. Two \<^verbatim>\<open>AddEdge\<close> calls with the same kind, start and end, whose property maps
  hold the same key-value pairs in any iteration order: in every store the second call
  changes nothing, and when the store has not seen the dedup key before, the two calls
  together append exactly one edge. Two calls whose property maps differ only in the
  value of \<^verbatim>\<open>propagate\<close> have different dedup keys and different edges, and when the
  store has seen neither key both edges are appended, in call order.
\<close>

theorem AddEdge_dedup_canonical:
  "(wf_gomap P1 \<and> wf_gomap P2 \<and> set (entries P1) = set (entries P2) \<longrightarrow>
      AddEdge k s e P2 (AddEdge k s e P1 gb) = AddEdge k s e P1 gb \<and>
      (map_of (EdgeKeys gb) (edgeKeyOf k s e (orEmpty P1)) \<noteq> Some True \<longrightarrow>
         Edges (AddEdge k s e P2 (AddEdge k s e P1 gb)) =
           Edges gb @ [newEdge k s e (orEmpty P1)])) \<and>
   (wf_gomap Q1 \<and> wf_gomap Q2 \<and>
    lookup Q1 ''propagate'' = Some (VBool b1) \<and> lookup Q2 ''propagate'' = Some (VBool b2) \<and>
    b1 \<noteq> b2 \<and> (\<forall>x. x \<noteq> ''propagate'' \<longrightarrow> lookup Q1 x = lookup Q2 x) \<longrightarrow>
      edgeKeyOf k s e Q1 \<noteq> edgeKeyOf k s e Q2 \<and> newEdge k s e Q1 \<noteq> newEdge k s e Q2 \<and>
      (map_of (EdgeKeys gb) (edgeKeyOf k s e Q1) \<noteq> Some True \<and>
       map_of (EdgeKeys gb) (edgeKeyOf k s e Q2) \<noteq> Some True \<longrightarrow>
         Edges (AddEdge k s e Q2 (AddEdge k s e Q1 gb)) =
           Edges gb @ [newEdge k s e Q1, newEdge k s e Q2]))"
proof (intro conjI impI)
  assume a: "wf_gomap P1 \<and> wf_gomap P2 \<and> set (entries P1) = set (entries P2)"
  then show same: "AddEdge k s e P2 (AddEdge k s e P1 gb) = AddEdge k s e P1 gb"
    by (simp add: AddEdge_twice_same)
  assume "map_of (EdgeKeys gb) (edgeKeyOf k s e (orEmpty P1)) \<noteq> Some True"
  then show "Edges (AddEdge k s e P2 (AddEdge k s e P1 gb)) =
      Edges gb @ [newEdge k s e (orEmpty P1)]"
    unfolding same by (simp add: AddEdge_fresh)
next
  assume b: "wf_gomap Q1 \<and> wf_gomap Q2 \<and>
    lookup Q1 ''propagate'' = Some (VBool b1) \<and> lookup Q2 ''propagate'' = Some (VBool b2) \<and>
    b1 \<noteq> b2 \<and> (\<forall>x. x \<noteq> ''propagate'' \<longrightarrow> lookup Q1 x = lookup Q2 x)"
  then have w: "wf_gomap Q1" "wf_gomap Q2"
    and l1: "lookup Q1 ''propagate'' = Some (VBool b1)"
    and l2: "lookup Q2 ''propagate'' = Some (VBool b2)"
    and bb: "b1 \<noteq> b2"
    and oth: "\<forall>x. x \<noteq> ''propagate'' \<longrightarrow> lookup Q1 x = lookup Q2 x"
    by blast+
  show ne: "edgeKeyOf k s e Q1 \<noteq> edgeKeyOf k s e Q2"
    using w l1 l2 bb oth by (rule edgeKeyOf_propagate)
  have "Q1 \<noteq> Q2"
  proof
    assume "Q1 = Q2"
    with l1 l2 have "VBool b1 = VBool b2" by simp
    with bb show False by simp
  qed
  then show "newEdge k s e Q1 \<noteq> newEdge k s e Q2" by (simp add: newEdge_def)
  have o: "orEmpty Q1 = Q1" "orEmpty Q2 = Q2"
    using orEmpty_nonempty[OF l1] orEmpty_nonempty[OF l2] by simp_all
  assume "map_of (EdgeKeys gb) (edgeKeyOf k s e Q1) \<noteq> Some True \<and>
       map_of (EdgeKeys gb) (edgeKeyOf k s e Q2) \<noteq> Some True"
  then show "Edges (AddEdge k s e Q2 (AddEdge k s e Q1 gb)) =
           Edges gb @ [newEdge k s e Q1, newEdge k s e Q2]"
    using AddEdge_two_fresh[of k s e Q1 Q2 gb] ne by (simp add: o)
qed

text \<open>The statement of C1 at two concrete permission edges on the empty store.\<close>

theorem AddEdge_dedup_canonical_witness:
  "AddEdge ''HAS_PERMISSION'' ''u'' ''v'' (Some [(''roleId'', VInt 7), (''propagate'', VBool True)])
     (AddEdge ''HAS_PERMISSION'' ''u'' ''v'' (Some [(''propagate'', VBool True), (''roleId'', VInt 7)])
        NewGraphBuilder) =
   AddEdge ''HAS_PERMISSION'' ''u'' ''v'' (Some [(''propagate'', VBool True), (''roleId'', VInt 7)])
        NewGraphBuilder \<and>
   Edges (AddEdge ''HAS_PERMISSION'' ''u'' ''v'' (Some [(''roleId'', VInt 7), (''propagate'', VBool True)])
     (AddEdge ''HAS_PERMISSION'' ''u'' ''v'' (Some [(''propagate'', VBool True), (''roleId'', VInt 7)])
        NewGraphBuilder)) =
   Edges NewGraphBuilder @
   [newEdge ''HAS_PERMISSION'' ''u'' ''v''
      (orEmpty (Some [(''propagate'', VBool True), (''roleId'', VInt 7)]))] \<and>
   Edges (AddEdge ''HAS_PERMISSION'' ''u'' ''v'' (Some [(''roleId'', VInt 7), (''propagate'', VBool False)])
     (AddEdge ''HAS_PERMISSION'' ''u'' ''v'' (Some [(''propagate'', VBool True), (''roleId'', VInt 7)])
        NewGraphBuilder)) =
   Edges NewGraphBuilder @
   [newEdge ''HAS_PERMISSION'' ''u'' ''v'' (Some [(''propagate'', VBool True), (''roleId'', VInt 7)]),
    newEdge ''HAS_PERMISSION'' ''u'' ''v'' (Some [(''roleId'', VInt 7), (''propagate'', VBool False)])]"
proof -
  let ?P1 = "Some [(''propagate'', VBool True), (''roleId'', VInt 7)]"
  let ?P2 = "Some [(''roleId'', VInt 7), (''propagate'', VBool True)]"
  let ?Q2 = "Some [(''roleId'', VInt 7), (''propagate'', VBool False)]"
  have h1: "wf_gomap ?P1 \<and> wf_gomap ?P2 \<and> set (entries ?P1) = set (entries ?P2)"
    by (auto simp: wf_gomap_def wf_props_def)
  have h2: "wf_gomap ?P1 \<and> wf_gomap ?Q2 \<and>
    lookup ?P1 ''propagate'' = Some (VBool True) \<and> lookup ?Q2 ''propagate'' = Some (VBool False) \<and>
    True \<noteq> False \<and> (\<forall>x. x \<noteq> ''propagate'' \<longrightarrow> lookup ?P1 x = lookup ?Q2 x)"
    by (simp add: wf_gomap_def wf_props_def lookup_def)
  have h3: "map_of (EdgeKeys NewGraphBuilder) key \<noteq> Some True" for key
    by (simp add: NewGraphBuilder_def)
  show ?thesis
    using AddEdge_dedup_canonical[of ?P1 ?P2 "''HAS_PERMISSION''" "''u''" "''v''" NewGraphBuilder
       ?P1 ?Q2 True False] h1 h2 h3
    by blast
qed

text \<open>
  On a store that has already seen the key, the two calls append no edge at all, so
  "exactly one edge in every store state" does not hold.
\<close>

theorem AddEdge_seen_key_counterexample:
  "Edges (AddEdge ''CONTAINS'' ''x'' ''y'' None (AddEdge ''CONTAINS'' ''x'' ''y'' None
      (AddEdge ''CONTAINS'' ''x'' ''y'' None NewGraphBuilder))) =
   Edges (AddEdge ''CONTAINS'' ''x'' ''y'' None NewGraphBuilder) \<and>
   length (Edges (AddEdge ''CONTAINS'' ''x'' ''y'' None (AddEdge ''CONTAINS'' ''x'' ''y'' None
      (AddEdge ''CONTAINS'' ''x'' ''y'' None NewGraphBuilder)))) \<noteq>
   length (Edges (AddEdge ''CONTAINS'' ''x'' ''y'' None NewGraphBuilder)) + 1"
  by (simp add: AddEdge_def NewGraphBuilder_def orEmpty_def edgeKeyOf_def propsToKey_def)

section \<open>Collisions of the flat edge key\<close>

lemma AddEdge_keys_after:
  "map_of (EdgeKeys (AddEdge k s e P gb)) x = Some True \<longleftrightarrow>
     x = edgeKeyOf k s e (orEmpty P) \<or> map_of (EdgeKeys gb) x = Some True"
  by (cases "map_of (EdgeKeys gb) (edgeKeyOf k s e (orEmpty P)) = Some True")
     (auto simp: AddEdge_dup AddEdge_fresh update_conv')

lemma AddEdge_second_dropped_iff:
  "AddEdge k2 s2 e2 P2 (AddEdge k1 s1 e1 P1 gb) = AddEdge k1 s1 e1 P1 gb \<longleftrightarrow>
     edgeKeyOf k2 s2 e2 (orEmpty P2) = edgeKeyOf k1 s1 e1 (orEmpty P1) \<or>
     map_of (EdgeKeys gb) (edgeKeyOf k2 s2 e2 (orEmpty P2)) = Some True"
  by (simp add: AddEdge_unchanged_iff AddEdge_keys_after)

lemma collision_ids:
  "edgeKeyOf ''CONTAINS'' ''a'' ''b:c'' (orEmpty None) = edgeKeyOf ''CONTAINS'' ''a:b'' ''c'' (orEmpty None)"
  by (simp add: edgeKeyOf_def)

lemma collision_props:
  "edgeKeyOf k s e (orEmpty (Some [(''a'', VStr ''1''), (''b'', VStr ''2'')])) =
   edgeKeyOf k s e (orEmpty (Some [(''a'', VStr ''1|b:2'')]))"
  by (simp add: edgeKeyOf_def propsToKey_def orEmpty_def index_def lookup_def)

text \<open>
  Claim C10. \<^verbatim>\<open>AddEdge\<close> leaves the store as it is exactly when the flat key string
  \<^verbatim>\<open>kind:start:end:propsKey\<close> was seen, so after a first call a second one is dropped
  exactly when its key equals the first key (or was seen earlier); \<^verbatim>\<open>propsKey\<close> joins the
  \<^verbatim>\<open>key:value\<close> items with a bar. Equal (kind, start, end, canonical properties) give equal
  keys, but not conversely: ids or values holding a colon or a bar make different
  quadruples share one key, and the later call is dropped in every store.
\<close>

theorem AddEdge_key_collision:
  "(AddEdge k s e P gb = gb \<longleftrightarrow>
      map_of (EdgeKeys gb) (edgeKeyOf k s e (orEmpty P)) = Some True) \<and>
   (AddEdge k2 s2 e2 P2 (AddEdge k1 s1 e1 P1 gb) = AddEdge k1 s1 e1 P1 gb \<longleftrightarrow>
      edgeKeyOf k2 s2 e2 (orEmpty P2) = edgeKeyOf k1 s1 e1 (orEmpty P1) \<or>
      map_of (EdgeKeys gb) (edgeKeyOf k2 s2 e2 (orEmpty P2)) = Some True) \<and>
   edgeKeyOf k s e P = k @ '':'' @ s @ '':'' @ e @ '':'' @ propsToKey P \<and>
   (entries P \<noteq> [] \<longrightarrow>
      propsToKey P =
        Join (map (\<lambda>x. x @ '':'' @ fmtV (index P x)) (sort (map fst (entries P)))) ''|'') \<and>
   (wf_gomap P1 \<and> wf_gomap P2 \<and> set (entries P1) = set (entries P2) \<longrightarrow>
      edgeKeyOf k s e (orEmpty P1) = edgeKeyOf k s e (orEmpty P2)) \<and>
   (''CONTAINS'', ''a'', ''b:c'') \<noteq> (''CONTAINS'', ''a:b'', ''c'') \<and>
   AddEdge ''CONTAINS'' ''a'' ''b:c'' None (AddEdge ''CONTAINS'' ''a:b'' ''c'' None gb) =
     AddEdge ''CONTAINS'' ''a:b'' ''c'' None gb \<and>
   set (entries (Some [(''a'', VStr ''1|b:2'')])) \<noteq>
     set (entries (Some [(''a'', VStr ''1''), (''b'', VStr ''2'')])) \<and>
   AddEdge k s e (Some [(''a'', VStr ''1|b:2'')])
       (AddEdge k s e (Some [(''a'', VStr ''1''), (''b'', VStr ''2'')]) gb) =
     AddEdge k s e (Some [(''a'', VStr ''1''), (''b'', VStr ''2'')]) gb"
proof (intro conjI impI)
  show "AddEdge k s e P gb = gb \<longleftrightarrow>
      map_of (EdgeKeys gb) (edgeKeyOf k s e (orEmpty P)) = Some True"
    by (rule AddEdge_unchanged_iff)
  show "AddEdge k2 s2 e2 P2 (AddEdge k1 s1 e1 P1 gb) = AddEdge k1 s1 e1 P1 gb \<longleftrightarrow>
      edgeKeyOf k2 s2 e2 (orEmpty P2) = edgeKeyOf k1 s1 e1 (orEmpty P1) \<or>
      map_of (EdgeKeys gb) (edgeKeyOf k2 s2 e2 (orEmpty P2)) = Some True"
    by (rule AddEdge_second_dropped_iff)
  show "edgeKeyOf k s e P = k @ '':'' @ s @ '':'' @ e @ '':'' @ propsToKey P"
    by (simp add: edgeKeyOf_def)
  show "propsToKey P =
        Join (map (\<lambda>x. x @ '':'' @ fmtV (index P x)) (sort (map fst (entries P)))) ''|''"
    if "entries P \<noteq> []"
    using that by (simp add: propsToKey_def)
  show "edgeKeyOf k s e (orEmpty P1) = edgeKeyOf k s e (orEmpty P2)"
    if "wf_gomap P1 \<and> wf_gomap P2 \<and> set (entries P1) = set (entries P2)"
    using that by (intro edgeKeyOf_same_entries) simp_all
  show "(''CONTAINS'', ''a'', ''b:c'') \<noteq> (''CONTAINS'', ''a:b'', ''c'')"
    by simp
  show "AddEdge ''CONTAINS'' ''a'' ''b:c'' None (AddEdge ''CONTAINS'' ''a:b'' ''c'' None gb) =
     AddEdge ''CONTAINS'' ''a:b'' ''c'' None gb"
    using collision_ids by (simp only: AddEdge_second_dropped_iff simp_thms)
  show "set (entries (Some [(''a'', VStr ''1|b:2'')])) \<noteq>
     set (entries (Some [(''a'', VStr ''1''), (''b'', VStr ''2'')]))"
    by simp
  show "AddEdge k s e (Some [(''a'', VStr ''1|b:2'')])
       (AddEdge k s e (Some [(''a'', VStr ''1''), (''b'', VStr ''2'')]) gb) =
     AddEdge k s e (Some [(''a'', VStr ''1''), (''b'', VStr ''2'')]) gb"
    using collision_props[of k s e] by (simp only: AddEdge_second_dropped_iff simp_thms)
qed

text \<open>C10 at concrete inputs: a reordered map and the colliding ids on the empty store.\<close>

theorem AddEdge_key_collision_witness:
  "propsToKey (Some [(''b'', VStr ''2''), (''a'', VStr ''1'')]) =
     Join (map (\<lambda>x. x @ '':'' @ fmtV (index (Some [(''b'', VStr ''2''), (''a'', VStr ''1'')]) x))
            (sort (map fst (entries (Some [(''b'', VStr ''2''), (''a'', VStr ''1'')]))))) ''|'' \<and>
   edgeKeyOf ''MEMBER_OF'' ''u'' ''g'' (orEmpty (Some [(''b'', VStr ''2''), (''a'', VStr ''1'')])) =
   edgeKeyOf ''MEMBER_OF'' ''u'' ''g'' (orEmpty (Some [(''a'', VStr ''1''), (''b'', VStr ''2'')])) \<and>
   AddEdge ''CONTAINS'' ''a'' ''b:c'' None (AddEdge ''CONTAINS'' ''a:b'' ''c'' None NewGraphBuilder) =
     AddEdge ''CONTAINS'' ''a:b'' ''c'' None NewGraphBuilder \<and>
   Edges (AddEdge ''CONTAINS'' ''a:b'' ''c'' None NewGraphBuilder) =
     [newEdge ''CONTAINS'' ''a:b'' ''c'' (Some [])]"
proof -
  let ?P1 = "Some [(''b'', VStr ''2''), (''a'', VStr ''1'')]"
  let ?P2 = "Some [(''a'', VStr ''1''), (''b'', VStr ''2'')]"
  have h1: "entries ?P1 \<noteq> []" by simp
  have h2: "wf_gomap ?P1 \<and> wf_gomap ?P2 \<and> set (entries ?P1) = set (entries ?P2)"
    by (auto simp: wf_gomap_def wf_props_def)
  have e: "Edges (AddEdge ''CONTAINS'' ''a:b'' ''c'' None NewGraphBuilder) =
     [newEdge ''CONTAINS'' ''a:b'' ''c'' (Some [])]"
    by (simp add: AddEdge_def NewGraphBuilder_def orEmpty_def Let_def)
  show ?thesis
    using AddEdge_key_collision[where k = "''MEMBER_OF''" and s = "''u''" and e = "''g''"
        and P = ?P1 and gb = NewGraphBuilder and ?P1.0 = ?P1 and ?P2.0 = ?P2] h1 h2 e
    by blast
qed

section \<open>Merging kinds and properties in \<^verbatim>\<open>EnsureNode\<close>\<close>

lemma kindMapOf_fold:
  "kmRep m ks0 \<Longrightarrow> kmRep (fold (\<lambda>k m. AList.update k True m) ks m) (ks0 @ ks)"
proof (induction ks arbitrary: m ks0)
  case Nil
  then show ?case by simp
next
  case (Cons k ks)
  have "kmRep (AList.update k True m) (ks0 @ [k])"
    using Cons.prems by (auto simp: kmRep_def update_conv')
  from Cons.IH[OF this] show ?case by simp
qed

lemma kmRep_kindMapOf: "kmRep (kindMapOf ks) ks"
  using kindMapOf_fold[of "[]" "[]" ks] by (simp add: kmRep_def kindMapOf_def)

lemma unionKinds_inv:
  assumes "kmRep kmap ekinds"
  shows "kmRep (snd (unionKinds kinds (ekinds, kmap))) (fst (unionKinds kinds (ekinds, kmap))) \<and>
         set (fst (unionKinds kinds (ekinds, kmap))) = set ekinds \<union> FormatNodeKind ` set kinds \<and>
         (distinct ekinds \<longrightarrow> distinct (fst (unionKinds kinds (ekinds, kmap)))) \<and>
         (\<exists>new. fst (unionKinds kinds (ekinds, kmap)) = ekinds @ new)"
  using assms
proof (induction kinds arbitrary: ekinds kmap)
  case Nil
  then show ?case by simp
next
  case (Cons k ks)
  show ?case
  proof (cases "map_of kmap (FormatNodeKind k) = Some True")
    case True
    then have "FormatNodeKind k \<in> set ekinds" using Cons.prems by (simp add: kmRep_def)
    with True Cons.IH[OF Cons.prems] show ?thesis by (auto simp: Let_def)
  next
    case False
    then have nin: "FormatNodeKind k \<notin> set ekinds" using Cons.prems by (simp add: kmRep_def)
    have rep: "kmRep (AList.update (FormatNodeKind k) True kmap) (ekinds @ [FormatNodeKind k])"
      using Cons.prems by (auto simp: kmRep_def update_conv')
    from Cons.IH[OF rep] False nin show ?thesis by (auto simp: Let_def)
  qed
qed

lemma unionKinds_existing:
  "set (fst (unionKinds kinds (ks, kindMapOf ks))) = set ks \<union> FormatNodeKind ` set kinds"
  "distinct ks \<Longrightarrow> distinct (fst (unionKinds kinds (ks, kindMapOf ks)))"
proof -
  have r: "kmRep (kindMapOf ks) ks" by (rule kmRep_kindMapOf)
  from unionKinds_inv[OF r]
  show "set (fst (unionKinds kinds (ks, kindMapOf ks))) = set ks \<union> FormatNodeKind ` set kinds"
    by blast
  from unionKinds_inv[OF r]
  show "distinct ks \<Longrightarrow> distinct (fst (unionKinds kinds (ks, kindMapOf ks)))"
    by blast
qed


lemma assignAll_nil: "assignAll al None = (if al = [] then Inr None else Inl NilMapAssignment)"
  by (cases al) (auto simp: assign_def)

lemma assignAll_Some:
  "assignAll al (Some ex) = Inr (Some (fold (\<lambda>(k, v). AList.update k v) al ex))"
  by (induction al arbitrary: ex) (auto simp: assign_def)

lemma map_of_fold_update:
  "distinct (map fst al) \<Longrightarrow>
   map_of (fold (\<lambda>(k, v). AList.update k v) al ex) = map_of ex ++ map_of al"
proof (induction al arbitrary: ex)
  case Nil
  then show ?case by simp
next
  case (Cons a al)
  obtain k v where a: "a = (k, v)" by (cases a)
  from Cons.prems a have nk: "k \<notin> dom (map_of al)" and d: "distinct (map fst al)"
    by (auto simp: dom_map_of_conv_image_fst)
  have "map_of (fold (\<lambda>(k, v). AList.update k v) (a # al) ex) =
        map_of (AList.update k v ex) ++ map_of al"
    using Cons.IH[OF d, of "AList.update k v ex"] by (simp add: a)
  also have "\<dots> = (map_of ex)(k \<mapsto> v) ++ map_of al"
    by (simp only: update_conv')
  also have "\<dots> = (map_of ex ++ map_of al)(k \<mapsto> v)"
    using nk by (rule map_add_upd_left)
  also have "\<dots> = map_of ex ++ map_of (a # al)"
    by (simp add: a)
  finally show ?case .
qed

lemma distinct_fold_update:
  "distinct (map fst ex) \<Longrightarrow> distinct (map fst (fold (\<lambda>(k, v). AList.update k v) al ex))"
  by (induction al arbitrary: ex) (auto simp: distinct_update)

lemma EnsureNode_new:
  "map_of (NodesByID gb) X = None \<Longrightarrow>
   EnsureNode kinds X p gb =
     Inr (gb\<lparr>NodesByID := AList.update X
            \<lparr>Kinds = map FormatNodeKind kinds, ID = X, Properties = p\<rparr> (NodesByID gb)\<rparr>)"
  by (simp add: EnsureNode_def)

lemma EnsureNode_existing_nil:
  "map_of (NodesByID gb) X = Some n \<Longrightarrow> Properties n = None \<Longrightarrow> entries p \<noteq> [] \<Longrightarrow>
   EnsureNode kinds X p gb = Inl NilMapAssignment"
  by (simp add: EnsureNode_def assignAll_nil)

lemma EnsureNode_existing_nil_empty:
  "map_of (NodesByID gb) X = Some n \<Longrightarrow> Properties n = None \<Longrightarrow> entries p = [] \<Longrightarrow>
   EnsureNode kinds X p gb =
     Inr (gb\<lparr>NodesByID := AList.update X
        (n\<lparr>Kinds := fst (unionKinds kinds (Kinds n, kindMapOf (Kinds n))),
           Properties := None\<rparr>) (NodesByID gb)\<rparr>)"
  by (simp add: EnsureNode_def assignAll_nil)

lemma EnsureNode_existing:
  "map_of (NodesByID gb) X = Some n \<Longrightarrow> Properties n = Some ex \<Longrightarrow>
   EnsureNode kinds X p gb =
     Inr (gb\<lparr>NodesByID := AList.update X
        (n\<lparr>Kinds := fst (unionKinds kinds (Kinds n, kindMapOf (Kinds n))),
           Properties := Some (fold (\<lambda>(k, v). AList.update k v) (entries p) ex)\<rparr>) (NodesByID gb)\<rparr>)"
  by (simp add: EnsureNode_def assignAll_Some)

lemma EnsureNode_cases:
  obtains (new) "map_of (NodesByID gb) X = None"
  | (nil_panic) n where "map_of (NodesByID gb) X = Some n" "Properties n = None" "entries p \<noteq> []"
  | (nil_empty) n where "map_of (NodesByID gb) X = Some n" "Properties n = None" "entries p = []"
  | (existing) n ex where "map_of (NodesByID gb) X = Some n" "Properties n = Some ex"
proof (cases "map_of (NodesByID gb) X")
  case None
  then show ?thesis by (rule new)
next
  case (Some n)
  show ?thesis
  proof (cases "Properties n")
    case None
    with Some show ?thesis by (cases "entries p = []") (auto intro: nil_panic nil_empty)
  next
    case (Some ex)
    with \<open>map_of (NodesByID gb) X = Some n\<close> show ?thesis by (rule existing)
  qed
qed

lemma EnsureNode_kindsOf:
  assumes "EnsureNode kinds X p gb = Inr gb'"
  shows "set (kindsOf gb' X) = set (kindsOf gb X) \<union> FormatNodeKind ` set kinds"
proof (cases rule: EnsureNode_cases[where gb = gb and X = X and p = p])
  case new
  with assms show ?thesis by (auto simp: EnsureNode_new kindsOf_def update_conv')
next
  case (nil_panic n)
  with assms show ?thesis by (simp add: EnsureNode_existing_nil)
next
  case (nil_empty n)
  with assms show ?thesis
    by (auto simp: EnsureNode_existing_nil_empty kindsOf_def update_conv' unionKinds_existing)
next
  case (existing n ex)
  with assms show ?thesis
    by (auto simp: EnsureNode_existing kindsOf_def update_conv' unionKinds_existing)
qed

lemma EnsureNode_kinds_distinct:
  assumes "EnsureNode kinds X p gb = Inr gb'" "map_of (NodesByID gb) X \<noteq> None"
    "distinct (kindsOf gb X)"
  shows "distinct (kindsOf gb' X)"
proof (cases rule: EnsureNode_cases[where gb = gb and X = X and p = p])
  case new
  with assms show ?thesis by simp
next
  case (nil_panic n)
  with assms show ?thesis by (simp add: EnsureNode_existing_nil)
next
  case (nil_empty n)
  with assms show ?thesis
    by (auto simp: EnsureNode_existing_nil_empty kindsOf_def update_conv' unionKinds_existing)
next
  case (existing n ex)
  with assms show ?thesis
    by (auto simp: EnsureNode_existing kindsOf_def update_conv' unionKinds_existing)
qed

lemma EnsureNode_present:
  assumes "EnsureNode kinds X p gb = Inr gb'"
  shows "map_of (NodesByID gb') X \<noteq> None"
  using assms
  by (cases rule: EnsureNode_cases[where gb = gb and X = X and p = p])
     (auto simp: EnsureNode_new EnsureNode_existing_nil EnsureNode_existing_nil_empty
        EnsureNode_existing update_conv')

lemma EnsureNode_propOf:
  assumes "EnsureNode kinds X p gb = Inr gb'" "wf_gomap p"
  shows "propOf gb' X k = (case lookup p k of Some v \<Rightarrow> Some v | None \<Rightarrow> propOf gb X k)"
proof (cases rule: EnsureNode_cases[where gb = gb and X = X and p = p])
  case new
  with assms show ?thesis
    by (auto simp: EnsureNode_new propOf_def update_conv' split: option.splits)
next
  case (nil_panic n)
  with assms show ?thesis by (simp add: EnsureNode_existing_nil)
next
  case (nil_empty n)
  with assms show ?thesis
    by (auto simp: EnsureNode_existing_nil_empty propOf_def update_conv' lookup_def)
next
  case (existing n ex)
  have d: "distinct (map fst (entries p))"
    using assms(2) by (auto simp: wf_gomap_def wf_props_def split: option.splits)
  from existing assms(1) show ?thesis
    by (auto simp: EnsureNode_existing propOf_def update_conv' lookup_def
        map_of_fold_update[OF d] map_add_def split: option.splits)
qed


text \<open>
  Runs of \<^const>\<open>EnsureNodeAll\<close> that end without a panic: the kinds of the node are the
  union of what it had and of all formatted kinds supplied, they stay free of duplicates
  when they were so after the creating call, and every property key holds the value of
  the last call that supplied it. A run cannot panic once the node holds a non-nil map.
\<close>

lemma EnsureNodeAll_Cons_Inr:
  assumes "EnsureNodeAll ((ks, p) # cs) X gb = Inr gb'"
  obtains g where "EnsureNode ks X p gb = Inr g" "EnsureNodeAll cs X g = Inr gb'"
  using assms by (cases "EnsureNode ks X p gb") auto

lemma EnsureNodeAll_kinds:
  "EnsureNodeAll cs X gb = Inr gb' \<Longrightarrow>
   set (kindsOf gb' X) = set (kindsOf gb X) \<union> (\<Union>c\<in>set cs. FormatNodeKind ` set (fst c))"
proof (induction cs arbitrary: gb)
  case Nil
  then show ?case by simp
next
  case (Cons c cs)
  obtain ks p where c: "c = (ks, p)" by (cases c)
  from Cons.prems obtain g where g: "EnsureNode ks X p gb = Inr g"
    and rest: "EnsureNodeAll cs X g = Inr gb'"
    unfolding c by (rule EnsureNodeAll_Cons_Inr)
  show ?case
    using Cons.IH[OF rest] EnsureNode_kindsOf[OF g] by (auto simp: c)
qed

lemma EnsureNodeAll_distinct_existing:
  "EnsureNodeAll cs X gb = Inr gb' \<Longrightarrow> map_of (NodesByID gb) X \<noteq> None \<Longrightarrow>
   distinct (kindsOf gb X) \<Longrightarrow> distinct (kindsOf gb' X)"
proof (induction cs arbitrary: gb)
  case Nil
  then show ?case by simp
next
  case (Cons c cs)
  obtain ks p where c: "c = (ks, p)" by (cases c)
  from Cons.prems(1) obtain g where g: "EnsureNode ks X p gb = Inr g"
    and rest: "EnsureNodeAll cs X g = Inr gb'"
    unfolding c by (rule EnsureNodeAll_Cons_Inr)
  show ?case
    using Cons.IH[OF rest EnsureNode_present[OF g]]
      EnsureNode_kinds_distinct[OF g Cons.prems(2,3)] by simp
qed

lemma EnsureNodeAll_distinct_new:
  assumes "EnsureNodeAll ((ks, p) # cs) X gb = Inr gb'" "map_of (NodesByID gb) X = None"
    "distinct (map FormatNodeKind ks)"
  shows "distinct (kindsOf gb' X)"
proof -
  from assms(1) obtain g where g: "EnsureNode ks X p gb = Inr g"
    and rest: "EnsureNodeAll cs X g = Inr gb'"
    by (rule EnsureNodeAll_Cons_Inr)
  have "kindsOf g X = map FormatNodeKind ks"
    using g assms(2) by (auto simp: EnsureNode_new kindsOf_def update_conv')
  with assms(3) have "distinct (kindsOf g X)" by simp
  with rest EnsureNode_present[OF g] show ?thesis by (rule EnsureNodeAll_distinct_existing)
qed

lemma EnsureNodeAll_props:
  "EnsureNodeAll cs X gb = Inr gb' \<Longrightarrow> \<forall>c\<in>set cs. wf_gomap (snd c) \<Longrightarrow>
   propOf gb' X k = lastSupplied cs k (propOf gb X k)"
proof (induction cs arbitrary: gb)
  case Nil
  then show ?case by simp
next
  case (Cons c cs)
  obtain ks p where c: "c = (ks, p)" by (cases c)
  from Cons.prems(1) obtain g where g: "EnsureNode ks X p gb = Inr g"
    and rest: "EnsureNodeAll cs X g = Inr gb'"
    unfolding c by (rule EnsureNodeAll_Cons_Inr)
  have wf: "wf_gomap p" and wfs: "\<forall>c\<in>set cs. wf_gomap (snd c)"
    using Cons.prems(2) by (simp_all add: c)
  show ?case
    using Cons.IH[OF rest wfs] EnsureNode_propOf[OF g wf, of k] by (simp add: c)
qed

lemma EnsureNode_keeps_non_nil:
  assumes "map_of (NodesByID gb) X = Some n" "Properties n \<noteq> None"
  shows "\<exists>g n'. EnsureNode ks X p gb = Inr g \<and> map_of (NodesByID g) X = Some n' \<and>
           Properties n' \<noteq> None"
proof -
  from assms(2) obtain ex where "Properties n = Some ex" by auto
  with assms(1) show ?thesis by (simp add: EnsureNode_existing update_conv')
qed

lemma EnsureNodeAll_total_existing:
  "map_of (NodesByID gb) X = Some n \<Longrightarrow> Properties n \<noteq> None \<Longrightarrow>
   \<exists>gb'. EnsureNodeAll cs X gb = Inr gb'"
proof (induction cs arbitrary: gb n)
  case Nil
  then show ?case by simp
next
  case (Cons c cs)
  obtain ks p where c: "c = (ks, p)" by (cases c)
  from EnsureNode_keeps_non_nil[OF Cons.prems, of ks p]
  obtain g n' where g: "EnsureNode ks X p gb = Inr g"
    and n': "map_of (NodesByID g) X = Some n'" "Properties n' \<noteq> None" by blast
  from Cons.IH[OF n'] g show ?case by (simp add: c)
qed

lemma EnsureNodeAll_total_new:
  assumes "map_of (NodesByID gb) X = None" "p \<noteq> None"
  shows "\<exists>gb'. EnsureNodeAll ((ks, p) # cs) X gb = Inr gb'"
proof -
  let ?n = "\<lparr>Kinds = map FormatNodeKind ks, ID = X, Properties = p\<rparr>"
  let ?g = "gb\<lparr>NodesByID := AList.update X ?n (NodesByID gb)\<rparr>"
  have g: "EnsureNode ks X p gb = Inr ?g" using assms(1) by (rule EnsureNode_new)
  have "map_of (NodesByID ?g) X = Some ?n" by (simp add: update_conv')
  moreover have "Properties ?n \<noteq> None" using assms(2) by simp
  ultimately have "\<exists>gb'. EnsureNodeAll cs X ?g = Inr gb'"
    by (rule EnsureNodeAll_total_existing)
  with g show ?thesis by simp
qed

text \<open>
  Claim C2 asks that the kinds of a node hold no duplicate after any sequence of
  \<^verbatim>\<open>EnsureNode\<close> calls. The branch for an existing node formats every incoming kind and
  skips those already present; the branch that creates the node stores the formatted
  kinds as they come. A creating call that names a kind twice, or two kinds with the same
  formatted form, leaves the duplicate in the list, and later calls never remove it.
\<close>

theorem EnsureNode_create_keeps_duplicates:
  "EnsureNodeAll [([''User'', ''User''], Some [])] ''user:vc:a'' NewGraphBuilder =
     Inr \<lparr>NodesByID = [(''user:vc:a'',
            \<lparr>Kinds = [''vCenter_User'', ''vCenter_User''], ID = ''user:vc:a'',
             Properties = Some []\<rparr>)],
          Edges = [], EdgeKeys = []\<rparr> \<and>
   EnsureNodeAll [([''a.b'', ''a-b''], Some []), ([''a b''], Some [])] ''n'' NewGraphBuilder =
     Inr \<lparr>NodesByID = [(''n'',
            \<lparr>Kinds = [''vCenter_a_b'', ''vCenter_a_b''], ID = ''n'', Properties = Some []\<rparr>)],
          Edges = [], EdgeKeys = []\<rparr>"
  by (simp add: EnsureNode_def NewGraphBuilder_def FormatNodeKind_def NodeTypeMap_def
      NodePrefix_def ReplaceAllChar_def kindMapOf_def Let_def)

text \<open>
  Claim C3 asks that after any sequence of \<^verbatim>\<open>EnsureNode\<close> calls every property key holds
  the value of the last call that supplied it. \<^verbatim>\<open>EnsureNode\<close> stores the property map of
  the creating call as it is; when that map is nil, the next call that supplies a key
  assigns into the nil map and panics, so the run has no final value for the key.
  (\<^verbatim>\<open>AddEdge\<close> replaces a nil argument by an empty map first.)
\<close>

theorem EnsureNode_nil_map_panics:
  "EnsureNodeAll [([''User''], None), ([''User''], Some [(''name'', VStr ''alice'')])]
     ''user:vc:alice'' NewGraphBuilder = Inl NilMapAssignment"
  by (simp add: EnsureNode_def NewGraphBuilder_def assign_def)

section \<open>Parsing principals\<close>

lemma SplitN2_length: "c \<in> set s \<Longrightarrow> length (SplitN2 s c) = 2"
  by (simp add: SplitN2_def)

lemma split_first:
  assumes "c \<in> set s"
  shows "s = takeWhile (\<lambda>x. x \<noteq> c) s @ [c] @ tl (dropWhile (\<lambda>x. x \<noteq> c) s)"
    and "c \<notin> set (takeWhile (\<lambda>x. x \<noteq> c) s)"
proof -
  let ?d = "dropWhile (\<lambda>x. x \<noteq> c) s"
  have ne: "?d \<noteq> []" using assms by auto
  then have "hd ?d = c" using hd_dropWhile[of "\<lambda>x. x \<noteq> c" s] by simp
  with ne have "?d = c # tl ?d" by (cases ?d) auto
  then have "takeWhile (\<lambda>x. x \<noteq> c) s @ [c] @ tl ?d = takeWhile (\<lambda>x. x \<noteq> c) s @ ?d"
    by simp
  then show "s = takeWhile (\<lambda>x. x \<noteq> c) s @ [c] @ tl ?d" by simp
  show "c \<notin> set (takeWhile (\<lambda>x. x \<noteq> c) s)"
    by (auto dest: set_takeWhileD)
qed

lemma parsePrincipal_backslash:
  assumes "backslash \<in> set p"
  shows "\<exists>d u. parsePrincipal p = (d, u) \<and> p = d @ [backslash] @ u \<and> backslash \<notin> set d"
  using assms split_first[OF assms]
  by (simp add: parsePrincipal_def Contains_def SplitN2_def)

lemma parsePrincipal_at:
  assumes "backslash \<notin> set p" "CHR ''@'' \<in> set p"
  shows "\<exists>d u. parsePrincipal p = (d, u) \<and> p = u @ ''@'' @ d \<and> CHR ''@'' \<notin> set u"
  using assms split_first[OF assms(2)]
  by (simp add: parsePrincipal_def Contains_def SplitN2_def)

lemma parsePrincipal_plain:
  "backslash \<notin> set p \<Longrightarrow> CHR ''@'' \<notin> set p \<Longrightarrow> parsePrincipal p = ([], p)"
  by (simp add: parsePrincipal_def Contains_def)

text \<open>
  Claim C5. A principal with a backslash is split at its first backslash into domain and
  user name; otherwise one with an at sign is split at its first at sign into user name
  and domain; otherwise the domain is empty and the user name is the whole string. Both
  copies of the parser agree, and the three examples of the specification evaluate as
  stated.
\<close>

theorem parsePrincipal_forms:
  "(backslash \<in> set p \<longrightarrow>
      (\<exists>d u. parsePrincipal p = (d, u) \<and> p = d @ [backslash] @ u \<and> backslash \<notin> set d)) \<and>
   (backslash \<notin> set p \<and> CHR ''@'' \<in> set p \<longrightarrow>
      (\<exists>d u. parsePrincipal p = (d, u) \<and> p = u @ ''@'' @ d \<and> CHR ''@'' \<notin> set u)) \<and>
   (backslash \<notin> set p \<and> CHR ''@'' \<notin> set p \<longrightarrow> parsePrincipal p = ([], p)) \<and>
   Collector_parsePrincipal p = parsePrincipal p \<and>
   parsePrincipal (''CORP'' @ [backslash] @ ''jdoe'') = (''CORP'', ''jdoe'') \<and>
   parsePrincipal ''jdoe@corp.local'' = (''corp.local'', ''jdoe'') \<and>
   parsePrincipal ''jdoe'' = ([], ''jdoe'')"
proof (intro conjI impI)
  show "parsePrincipal (''CORP'' @ [backslash] @ ''jdoe'') = (''CORP'', ''jdoe'')"
    by (simp add: parsePrincipal_def Contains_def SplitN2_def backslash_def)
  show "parsePrincipal ''jdoe@corp.local'' = (''corp.local'', ''jdoe'')"
    by (simp add: parsePrincipal_def Contains_def SplitN2_def backslash_def)
  show "parsePrincipal ''jdoe'' = ([], ''jdoe'')"
    by (simp add: parsePrincipal_def Contains_def SplitN2_def backslash_def)
  show "Collector_parsePrincipal p = parsePrincipal p"
    by (simp add: parsePrincipal_def Collector_parsePrincipal_def)
  show "\<exists>d u. parsePrincipal p = (d, u) \<and> p = d @ [backslash] @ u \<and> backslash \<notin> set d"
    if "backslash \<in> set p"
    using that by (rule parsePrincipal_backslash)
  show "\<exists>d u. parsePrincipal p = (d, u) \<and> p = u @ ''@'' @ d \<and> CHR ''@'' \<notin> set u"
    if "backslash \<notin> set p \<and> CHR ''@'' \<in> set p"
    using that by (intro parsePrincipal_at) simp_all
  show "parsePrincipal p = ([], p)" if "backslash \<notin> set p \<and> CHR ''@'' \<notin> set p"
    using that by (simp add: parsePrincipal_plain)
qed

text \<open>C5 at one principal of each form.\<close>

theorem parsePrincipal_forms_witness:
  "(\<exists>d u. parsePrincipal (''CORP'' @ [backslash] @ ''jdoe@x'') = (d, u) \<and>
      ''CORP'' @ [backslash] @ ''jdoe@x'' = d @ [backslash] @ u \<and> backslash \<notin> set d) \<and>
   (\<exists>d u. parsePrincipal ''jdoe@corp.local'' = (d, u) \<and>
      ''jdoe@corp.local'' = u @ ''@'' @ d \<and> CHR ''@'' \<notin> set u) \<and>
   parsePrincipal ''Administrators'' = ([], ''Administrators'')"
proof -
  have h1: "backslash \<in> set (''CORP'' @ [backslash] @ ''jdoe@x'')" by simp
  have h2: "backslash \<notin> set ''jdoe@corp.local'' \<and> CHR ''@'' \<in> set ''jdoe@corp.local''"
    by (simp add: backslash_def)
  have h3: "backslash \<notin> set ''Administrators'' \<and> CHR ''@'' \<notin> set ''Administrators''"
    by (simp add: backslash_def)
  show ?thesis
    using parsePrincipal_forms[of "''CORP'' @ [backslash] @ ''jdoe@x''"]
      parsePrincipal_forms[of "''jdoe@corp.local''"]
      parsePrincipal_forms[of "''Administrators''"] h1 h2 h3
    by blast
qed

section \<open>Assignments of a no-access role\<close>

lemma EnsureNode_frame:
  assumes "EnsureNode ks X p gb = Inr gb'"
  shows "Edges gb' = Edges gb" "EdgeKeys gb' = EdgeKeys gb"
    "Y \<noteq> X \<Longrightarrow> map_of (NodesByID gb') Y = map_of (NodesByID gb) Y"
  using assms
  by (cases rule: EnsureNode_cases[where gb = gb and X = X and p = p];
      auto simp: EnsureNode_new EnsureNode_existing_nil EnsureNode_existing_nil_empty
        EnsureNode_existing update_conv')+

lemma processPermission_no_access:
  assumes "isNoAccess (fst (roleInfo roles privMap (PermRoleId perm)))"
  shows "processPermission host hostsOf perm roles privMap gb =
     EnsureNode (fst (principalNode host perm)) (fst (snd (principalNode host perm)))
       (snd (snd (principalNode host perm))) gb"
  using assms
  by (auto simp: processPermission_def Let_def split: prod.splits sum.splits)

text \<open>
  Claim C4. When the role of a permission assignment resolves to a name that
  \<^verbatim>\<open>isNoAccess\<close> accepts, \<^verbatim>\<open>processPermission\<close> does what \<^verbatim>\<open>EnsureNode\<close> on the principal
  does, and nothing more: no edge and no dedup key is added and every node but the
  principal's is left as it was. The principal node is created or updated before the
  role is looked at. \<^verbatim>\<open>isNoAccess\<close> accepts exactly the names whose lower-case form is
  \<^verbatim>\<open>no access\<close>, \<^verbatim>\<open>noaccess\<close> or \<^verbatim>\<open>no-access\<close>; other punctuation is not recognised.
\<close>

theorem processPermission_no_access_frame:
  "(isNoAccess (fst (roleInfo roles privMap (PermRoleId perm))) \<longrightarrow>
      processPermission host hostsOf perm roles privMap gb =
        EnsureNode (fst (principalNode host perm)) (fst (snd (principalNode host perm)))
          (snd (snd (principalNode host perm))) gb \<and>
      (\<forall>gb'. processPermission host hostsOf perm roles privMap gb = Inr gb' \<longrightarrow>
         Edges gb' = Edges gb \<and> EdgeKeys gb' = EdgeKeys gb \<and>
         (\<forall>Y. Y \<noteq> fst (snd (principalNode host perm)) \<longrightarrow>
              map_of (NodesByID gb') Y = map_of (NodesByID gb) Y))) \<and>
   (isNoAccess n \<longleftrightarrow> ToLower n \<in> {''no access'', ''noaccess'', ''no-access''}) \<and>
   isNoAccess ''No Access'' \<and> isNoAccess ''NOACCESS'' \<and> isNoAccess ''no-access'' \<and>
   \<not> isNoAccess ''No_Access'' \<and> \<not> isNoAccess ''no.access''"
proof (intro conjI impI allI)
  assume na: "isNoAccess (fst (roleInfo roles privMap (PermRoleId perm)))"
  then show eq: "processPermission host hostsOf perm roles privMap gb =
        EnsureNode (fst (principalNode host perm)) (fst (snd (principalNode host perm)))
          (snd (snd (principalNode host perm))) gb"
    by (rule processPermission_no_access)
  fix gb' assume "processPermission host hostsOf perm roles privMap gb = Inr gb'"
  with eq have e: "EnsureNode (fst (principalNode host perm)) (fst (snd (principalNode host perm)))
          (snd (snd (principalNode host perm))) gb = Inr gb'" by simp
  show "Edges gb' = Edges gb" using e by (rule EnsureNode_frame)
  show "EdgeKeys gb' = EdgeKeys gb" using e by (rule EnsureNode_frame)
  fix Y assume "Y \<noteq> fst (snd (principalNode host perm))"
  with e show "map_of (NodesByID gb') Y = map_of (NodesByID gb) Y"
    by (rule EnsureNode_frame)
next
  show "isNoAccess n \<longleftrightarrow> ToLower n \<in> {''no access'', ''noaccess'', ''no-access''}"
    by (auto simp: isNoAccess_def Let_def)
qed (simp_all add: isNoAccess_def ToLower_def toLowerChar_def upperLetters_def lowerLetters_def)


text \<open>The sample assignment on the empty store: the principal node is all that is added.\<close>

lemma jdoe_result:
  "processPermission ''vc'' noHosts jdoePermission noAccessRoles Map.empty NewGraphBuilder =
     Inr \<lparr>NodesByID = [(''user:vc:jdoe@corp.local'', jdoeNode)], Edges = [], EdgeKeys = []\<rparr>"
  by (simp add: processPermission_def principalNode_def jdoePermission_def noAccessRoles_def
      roleInfo_def isNoAccess_def ToLower_def toLowerChar_def upperLetters_def lowerLetters_def
      parsePrincipal_def Contains_def SplitN2_def backslash_def EnsureNode_def
      NewGraphBuilder_def FormatNodeKind_def NodeTypeMap_def NodePrefix_def ReplaceAllChar_def
      jdoeNode_def Let_def)

lemma jdoe_no_access:
  "isNoAccess (fst (roleInfo noAccessRoles Map.empty (PermRoleId jdoePermission)))"
  by (simp add: jdoePermission_def noAccessRoles_def
      roleInfo_def isNoAccess_def ToLower_def toLowerChar_def upperLetters_def lowerLetters_def Let_def)

theorem processPermission_no_access_frame_witness:
  "processPermission ''vc'' noHosts jdoePermission noAccessRoles Map.empty NewGraphBuilder =
     EnsureNode (fst (principalNode ''vc'' jdoePermission))
       (fst (snd (principalNode ''vc'' jdoePermission)))
       (snd (snd (principalNode ''vc'' jdoePermission))) NewGraphBuilder \<and>
   Edges \<lparr>NodesByID = [(''user:vc:jdoe@corp.local'', jdoeNode)], Edges = [], EdgeKeys = []\<rparr> =
     Edges NewGraphBuilder \<and>
   EdgeKeys \<lparr>NodesByID = [(''user:vc:jdoe@corp.local'', jdoeNode)], Edges = [], EdgeKeys = []\<rparr> =
     EdgeKeys NewGraphBuilder"
  using processPermission_no_access_frame[of noAccessRoles Map.empty jdoePermission "''vc''"
      noHosts NewGraphBuilder] jdoe_no_access jdoe_result
  by blast

text \<open>
  The store after a "No Access" assignment is not the store before it: the user node of
  the principal has been added.
\<close>

theorem processPermission_no_access_counterexample:
  "isNoAccess (fst (roleInfo noAccessRoles Map.empty (PermRoleId jdoePermission))) \<and>
   processPermission ''vc'' noHosts jdoePermission noAccessRoles Map.empty NewGraphBuilder =
     Inr \<lparr>NodesByID = [(''user:vc:jdoe@corp.local'', jdoeNode)], Edges = [], EdgeKeys = []\<rparr> \<and>
   NodesByID \<lparr>NodesByID = [(''user:vc:jdoe@corp.local'', jdoeNode)], Edges = [], EdgeKeys = []\<rparr>
     \<noteq> NodesByID NewGraphBuilder"
  by (simp add: jdoe_no_access jdoe_result) (simp add: NewGraphBuilder_def)

section \<open>Determinism of request signing\<close>


lemma signatureOf_set [simp]:
  "signatureOf (Inr (setHeaders c ts sig req)) = Inr (Some sig)"
  by (simp add: signatureOf_def setHeaders_def update_conv')

lemma signatureOf_Inl [simp]: "signatureOf (Inl e) = Inl e"
  by (simp add: signatureOf_def)




section \<open>Which nodes get a sync edge\<close>

lemma Split_nonempty: "Split s c \<noteq> []"
  by (induction s) (auto split: list.splits)

lemma Split_first: "Split s c ! 0 = takeWhile (\<lambda>x. x \<noteq> c) s"
proof (induction s)
  case Nil
  show ?case by simp
next
  case (Cons x xs)
  then show ?case
    using Split_nonempty[of xs c] by (cases "Split xs c") auto
qed

lemma domainMapOf_fold: "domainMapOf upper names = fold (putDomain upper) names Map.empty"
proof -
  have "(\<lambda>name domainMap.
            let fqdn = upper name; parts = Split fqdn (CHR ''.'')
            in if length parts > 0 then domainMap(parts ! 0 \<mapsto> fqdn) else domainMap) =
        putDomain upper"
    by (simp add: fun_eq_iff putDomain_def Let_def Split_nonempty Split_first firstLabel_def)
  then show ?thesis by (simp add: domainMapOf_def)
qed

lemma fold_putDomain_Some:
  "fold (putDomain upper) names m k = Some f \<Longrightarrow>
     (\<exists>n\<in>set names. f = upper n \<and> firstLabel (upper n) = k) \<or> m k = Some f"
proof (induction names arbitrary: m)
  case Nil
  then show ?case by simp
next
  case (Cons n ns)
  from Cons.IH[of "putDomain upper n m"] Cons.prems show ?case
    by (auto simp: putDomain_def split: if_splits)
qed

lemma fold_putDomain_None:
  "fold (putDomain upper) names m k = None \<longleftrightarrow>
     (\<forall>n\<in>set names. firstLabel (upper n) \<noteq> k) \<and> m k = None"
proof (induction names arbitrary: m)
  case Nil
  then show ?case by simp
next
  case (Cons n ns)
  have "putDomain upper n m k = None \<longleftrightarrow> firstLabel (upper n) \<noteq> k \<and> m k = None"
    by (auto simp: putDomain_def)
  then show ?case by (auto simp: Cons.IH)
qed

lemma domainMapOf_Some:
  "domainMapOf upper names k = Some f \<Longrightarrow>
     \<exists>n\<in>set names. f = upper n \<and> firstLabel (upper n) = k"
  using fold_putDomain_Some[of upper names Map.empty k f] by (simp add: domainMapOf_fold)

lemma domainMapOf_None:
  "domainMapOf upper names k = None \<longleftrightarrow> (\<forall>n\<in>set names. firstLabel (upper n) \<noteq> k)"
  by (simp add: domainMapOf_fold fold_putDomain_None)

lemma kindFlags_fold:
  "fold (\<lambda>k (isUser, isGroup).
            if k = ''vCenter_User'' then (True, isGroup)
            else if k = ''vCenter_Group'' then (isUser, True)
            else (isUser, isGroup)) kinds (u, g) =
   (u \<or> ''vCenter_User'' \<in> set kinds, g \<or> ''vCenter_Group'' \<in> set kinds)"
  by (induction kinds arbitrary: u g) auto

lemma kindFlags_eq:
  "kindFlags kinds = (''vCenter_User'' \<in> set kinds, ''vCenter_Group'' \<in> set kinds)"
  by (simp add: kindFlags_def kindFlags_fold)

text \<open>The loop of \<^verbatim>\<open>Run\<close> makes, in node order, the calls \<^const>\<open>syncEdge\<close> yields.\<close>

lemma syncEdges_calls:
  "syncEdges add upper DomainMap nodes gb =
     fold add (List.map_filter (syncEdge upper DomainMap) nodes) gb"
  by (induction nodes arbitrary: gb) (auto simp: syncEdges_def List.map_filter_def)

lemma syncEdge_unfold:
  "syncEdge upper DomainMap node =
    (if ''vCenter_User'' \<notin> set (Kinds node) \<and> ''vCenter_Group'' \<notin> set (Kinds node) then None
     else if propString node ''name'' = [] \<or> propString node ''domain'' = [] then None
     else case DomainMap (upper (propString node ''domain'')) of
            None \<Rightarrow> None
          | Some fqdn \<Rightarrow>
              Some \<lparr>CallKind = (if ''vCenter_User'' \<in> set (Kinds node) then ''SyncsTovCenterUser''
                                else ''SyncsTovCenterGroup''),
                    CallStart = upper (propString node ''username'') @ ''@'' @ fqdn,
                    CallStartMatchBy = ''name'', CallEnd = ID node,
                    CallEndMatchBy = [], CallProps = None\<rparr>)"
  by (simp add: syncEdge_def kindFlags_eq Let_def split: option.splits)

text \<open>
  What \<^verbatim>\<open>Run\<close> does for every node, for any upper-casing function: a call is made
  exactly when the node has the kind \<^verbatim>\<open>vCenter_User\<close> or \<^verbatim>\<open>vCenter_Group\<close>, its \<^verbatim>\<open>name\<close>
  and \<^verbatim>\<open>domain\<close> are non-empty strings, and the upper-cased domain is the first
  dot-delimited label of some upper-cased candidate. The call goes from
  \<^verbatim>\<open>UPPER(username) + "@" + UPPER(fqdn)\<close>, matched by \<^verbatim>\<open>name\<close>, to the node's id.
\<close>

lemma syncEdge_None_iff:
  "syncEdge upper (domainMapOf upper fqdns) node = None \<longleftrightarrow>
     \<not> ((''vCenter_User'' \<in> set (Kinds node) \<or> ''vCenter_Group'' \<in> set (Kinds node)) \<and>
        propString node ''name'' \<noteq> [] \<and> propString node ''domain'' \<noteq> [] \<and>
        (\<exists>f\<in>set fqdns. upper (propString node ''domain'') = firstLabel (upper f)))"
proof -
  let ?D = "upper (propString node ''domain'')"
  have m: "domainMapOf upper fqdns ?D = None \<longleftrightarrow>
      \<not> (\<exists>f\<in>set fqdns. ?D = firstLabel (upper f))"
    unfolding domainMapOf_None by auto
  show ?thesis
  proof (cases "domainMapOf upper fqdns ?D")
    case None
    with m show ?thesis by (simp add: syncEdge_unfold)
  next
    case (Some f)
    with m have "\<exists>f\<in>set fqdns. ?D = firstLabel (upper f)" by simp
    with Some show ?thesis by (simp add: syncEdge_unfold)
  qed
qed

lemma syncEdge_Some:
  assumes "syncEdge upper (domainMapOf upper fqdns) node = Some call"
  shows "(\<exists>f\<in>set fqdns. upper (propString node ''domain'') = firstLabel (upper f) \<and>
            CallStart call = upper (propString node ''username'') @ ''@'' @ upper f) \<and>
         CallStartMatchBy call = ''name'' \<and> CallEnd call = ID node \<and> CallEndMatchBy call = [] \<and>
         CallKind call = (if ''vCenter_User'' \<in> set (Kinds node) then ''SyncsTovCenterUser''
                          else ''SyncsTovCenterGroup'')"
proof (cases "domainMapOf upper fqdns (upper (propString node ''domain''))")
  case None
  with assms show ?thesis by (simp add: syncEdge_unfold split: if_splits)
next
  case (Some f)
  from domainMapOf_Some[OF Some] obtain n where n: "n \<in> set fqdns" "f = upper n"
    "firstLabel (upper n) = upper (propString node ''domain'')" by blast
  have call: "CallStart call = upper (propString node ''username'') @ ''@'' @ f \<and>
      CallStartMatchBy call = ''name'' \<and> CallEnd call = ID node \<and> CallEndMatchBy call = [] \<and>
      CallKind call = (if ''vCenter_User'' \<in> set (Kinds node) then ''SyncsTovCenterUser''
                          else ''SyncsTovCenterGroup'')"
    using assms Some by (auto simp: syncEdge_unfold split: if_splits)
  moreover have "\<exists>g\<in>set fqdns. upper (propString node ''domain'') = firstLabel (upper g) \<and>
      CallStart call = upper (propString node ''username'') @ ''@'' @ upper g"
    using n call by (intro bexI[of _ n]) simp_all
  ultimately show ?thesis by blast
qed

text \<open>The sample nodes against the candidate \<^verbatim>\<open>CORP.LOCAL\<close>.\<close>

lemma ToUpperASCII_CORP_LOCAL: "ToUpperASCII ''CORP.LOCAL'' = ''CORP.LOCAL''"
  by (simp add: ToUpperASCII_def toUpperASCIIChar_def lowerLetters_def upperLetters_def)

lemma ToUpperASCII_CORP: "ToUpperASCII ''CORP'' = ''CORP''"
  by (simp add: ToUpperASCII_def toUpperASCIIChar_def lowerLetters_def upperLetters_def)

lemma ToUpperASCII_OTHER: "ToUpperASCII ''OTHER'' = ''OTHER''"
  by (simp add: ToUpperASCII_def toUpperASCIIChar_def lowerLetters_def upperLetters_def)

lemma ToUpperASCII_admin: "ToUpperASCII ''admin'' = ''ADMIN''"
  by (simp add: ToUpperASCII_def toUpperASCIIChar_def lowerLetters_def upperLetters_def)

lemma ToUpperASCII_Nil: "ToUpperASCII [] = []"
  by (simp add: ToUpperASCII_def)

lemma domainMapOf_CORP:
  "domainMapOf ToUpperASCII [''CORP.LOCAL''] = [''CORP'' \<mapsto> ''CORP.LOCAL'']"
  by (simp add: domainMapOf_def ToUpperASCII_CORP_LOCAL Let_def)

lemma adminNode_props:
  "propString adminNode ''name'' = ''CORP'' @ [backslash] @ ''admin''"
  "propString adminNode ''domain'' = ''CORP''"
  "propString adminNode ''username'' = ''admin''"
  "Kinds adminNode = [''vCenter_User'']"
  "ID adminNode = ''user:vc:CORP'' @ [backslash] @ ''admin''"
  by (simp_all add: adminNode_def propString_def asString_def index_def lookup_def)

lemma otherNode_props:
  "propString otherNode ''name'' = ''OTHER'' @ [backslash] @ ''ops''"
  "propString otherNode ''domain'' = ''OTHER''"
  "Kinds otherNode = [''vCenter_Group'']"
  by (simp_all add: otherNode_def propString_def asString_def index_def lookup_def)

lemma namelessNode_props:
  "propString namelessNode ''name'' = ''CORP'' @ [backslash]"
  "propString namelessNode ''domain'' = ''CORP''"
  "propString namelessNode ''username'' = []"
  "Kinds namelessNode = [''vCenter_User'']"
  "ID namelessNode = ''user:vc:CORP'' @ [backslash]"
  by (simp_all add: namelessNode_def propString_def asString_def index_def lookup_def)

lemma adminNode_call:
  "syncEdge ToUpperASCII (domainMapOf ToUpperASCII [''CORP.LOCAL'']) adminNode =
     Some \<lparr>CallKind = ''SyncsTovCenterUser'', CallStart = ''ADMIN@CORP.LOCAL'',
           CallStartMatchBy = ''name'', CallEnd = ''user:vc:CORP'' @ [backslash] @ ''admin'',
           CallEndMatchBy = [], CallProps = None\<rparr>"
  by (simp add: syncEdge_unfold domainMapOf_CORP adminNode_props ToUpperASCII_CORP
      ToUpperASCII_admin)

lemma otherNode_call:
  "syncEdge ToUpperASCII (domainMapOf ToUpperASCII [''CORP.LOCAL'']) otherNode = None"
  by (simp add: syncEdge_unfold domainMapOf_CORP otherNode_props ToUpperASCII_OTHER)

text \<open>
  Claim C7 asks, with the specification, that no sync edge is produced for a node whose
  user name is empty. The guard in \<^verbatim>\<open>Run\<close> tests \<^verbatim>\<open>name\<close> and \<^verbatim>\<open>domain\<close>, while the
  foreign id is built from \<^verbatim>\<open>username\<close>: for a User node with a name, the domain
  \<^verbatim>\<open>CORP\<close> and an empty user name, \<^verbatim>\<open>Run\<close> calls \<^verbatim>\<open>AddRawEdgeWithMatch\<close> with a foreign id
  that is the upper-cased empty user name, an at sign and the domain name found, whatever
  the upper-casing function and the rest of the domain map; against the candidate
  \<^verbatim>\<open>CORP.LOCAL\<close> the foreign id is \<^verbatim>\<open>@CORP.LOCAL\<close>.
\<close>

theorem syncEdge_empty_username_edge:
  "propString namelessNode ''username'' = [] \<and>
   syncEdge upper (DomainMap(upper ''CORP'' \<mapsto> fqdn)) namelessNode =
     Some \<lparr>CallKind = ''SyncsTovCenterUser'', CallStart = upper [] @ ''@'' @ fqdn,
           CallStartMatchBy = ''name'', CallEnd = ''user:vc:CORP'' @ [backslash],
           CallEndMatchBy = [], CallProps = None\<rparr> \<and>
   syncEdge ToUpperASCII (domainMapOf ToUpperASCII [''CORP.LOCAL'']) namelessNode =
     Some \<lparr>CallKind = ''SyncsTovCenterUser'', CallStart = ''@CORP.LOCAL'',
           CallStartMatchBy = ''name'', CallEnd = ''user:vc:CORP'' @ [backslash],
           CallEndMatchBy = [], CallProps = None\<rparr>"
proof (intro conjI)
  show "propString namelessNode ''username'' = []"
    by (simp add: namelessNode_props)
  show "syncEdge upper (DomainMap(upper ''CORP'' \<mapsto> fqdn)) namelessNode =
     Some \<lparr>CallKind = ''SyncsTovCenterUser'', CallStart = upper [] @ ''@'' @ fqdn,
           CallStartMatchBy = ''name'', CallEnd = ''user:vc:CORP'' @ [backslash],
           CallEndMatchBy = [], CallProps = None\<rparr>"
    by (simp add: syncEdge_unfold namelessNode_props)
  show "syncEdge ToUpperASCII (domainMapOf ToUpperASCII [''CORP.LOCAL'']) namelessNode =
     Some \<lparr>CallKind = ''SyncsTovCenterUser'', CallStart = ''@CORP.LOCAL'',
           CallStartMatchBy = ''name'', CallEnd = ''user:vc:CORP'' @ [backslash],
           CallEndMatchBy = [], CallProps = None\<rparr>"
    by (simp add: syncEdge_unfold domainMapOf_CORP namelessNode_props ToUpperASCII_CORP
        ToUpperASCII_Nil)
qed

section \<open>Merging sources: the first one wins\<close>

lemma mergeProperties_Some:
  "\<exists>e'. mergeProperties al (Some e) = Inr (Some e') \<and>
        (distinct (map fst e) \<longrightarrow> distinct (map fst e')) \<and>
        (\<forall>k. map_of e' k = (case map_of e k of Some v \<Rightarrow> Some v | None \<Rightarrow> map_of al k))"
proof (induction al arbitrary: e)
  case Nil
  show ?case by (simp split: option.splits)
next
  case (Cons a al)
  obtain k v where a: "a = (k, v)" by (cases a)
  show ?case
  proof (cases "map_of e k")
    case None
    from Cons.IH[of "AList.update k v e"] obtain e' where
      e': "mergeProperties al (Some (AList.update k v e)) = Inr (Some e')"
      and d: "distinct (map fst (AList.update k v e)) \<longrightarrow> distinct (map fst e')"
      and m: "\<forall>x. map_of e' x =
        (case map_of (AList.update k v e) x of Some v \<Rightarrow> Some v | None \<Rightarrow> map_of al x)"
      by blast
    have 1: "mergeProperties (a # al) (Some e) = Inr (Some e')"
      using None e' by (simp add: a lookup_def assign_def)
    have 2: "distinct (map fst e) \<longrightarrow> distinct (map fst e')"
      using d by (simp add: distinct_update)
    have 3: "map_of e' x = (case map_of e x of Some v \<Rightarrow> Some v | None \<Rightarrow> map_of (a # al) x)" for x
      using m[rule_format, of x] None
      by (cases "x = k") (simp_all add: a update_conv' split: option.splits)
    from 1 2 3 show ?thesis by blast
  next
    case (Some w)
    from Cons.IH[of e] obtain e' where
      e': "mergeProperties al (Some e) = Inr (Some e')"
      and d: "distinct (map fst e) \<longrightarrow> distinct (map fst e')"
      and m: "\<forall>x. map_of e' x = (case map_of e x of Some v \<Rightarrow> Some v | None \<Rightarrow> map_of al x)"
      by blast
    have 1: "mergeProperties (a # al) (Some e) = Inr (Some e')"
      using Some e' by (simp add: a lookup_def)
    have 3: "map_of e' x = (case map_of e x of Some v \<Rightarrow> Some v | None \<Rightarrow> map_of (a # al) x)" for x
      using m[rule_format, of x] Some
      by (cases "x = k") (simp_all add: a split: option.splits)
    from 1 d 3 show ?thesis by blast
  qed
qed

lemma list_all_update:
  "list_all P al \<Longrightarrow> P (k, v) \<Longrightarrow> list_all P (AList.update k v al)"
  by (induction al) auto

lemma nodeOk_lookup:
  assumes "list_all nodeOk al" "map_of al key = Some ex"
  shows "ID ex = key" "Properties ex \<noteq> None" "wf_gomap (Properties ex)"
proof -
  from assms(2) have "(key, ex) \<in> set al" by (rule map_of_SomeD)
  with assms(1) have "nodeOk (key, ex)" by (simp add: list_all_iff)
  then show "ID ex = key" "Properties ex \<noteq> None" "wf_gomap (Properties ex)"
    by (simp_all add: nodeOk_def)
qed

lemma merge_step:
  assumes ok: "storeOk mg" and nok: "nodeOk (key, node)"
  obtains mg1 n1 where
    "mergeNodes ((key, node) # rest) mg = mergeNodes rest mg1"
    "storeOk mg1" "Edges mg1 = Edges mg" "EdgeKeys mg1 = EdgeKeys mg"
    "\<forall>id. id \<noteq> key \<longrightarrow> map_of (NodesByID mg1) id = map_of (NodesByID mg) id"
    "map_of (NodesByID mg1) key = Some n1"
    "map_of (NodesByID mg) key = None \<longrightarrow> n1 = node"
    "\<forall>ex. map_of (NodesByID mg) key = Some ex \<longrightarrow>
        Kinds n1 = Kinds ex \<and> ID n1 = ID ex \<and>
        (\<forall>k. lookup (Properties n1) k = firstWins (Properties ex) (Properties node) k)"
proof (cases "map_of (NodesByID mg) key")
  case None
  let ?mg1 = "mg\<lparr>NodesByID := AList.update key node (NodesByID mg)\<rparr>"
  from nok have id: "ID node = key" by (simp add: nodeOk_def)
  have "mergeNodes ((key, node) # rest) mg = mergeNodes rest ?mg1"
    using None by (simp add: id)
  moreover have "storeOk ?mg1"
    using ok nok by (simp add: storeOk_def distinct_update list_all_update)
  moreover have "\<forall>id. id \<noteq> key \<longrightarrow> map_of (NodesByID ?mg1) id = map_of (NodesByID mg) id"
    by (simp add: update_conv')
  moreover have "map_of (NodesByID ?mg1) key = Some node" by (simp add: update_conv')
  ultimately show ?thesis using None by (intro that[of ?mg1 node]) simp_all
next
  case (Some ex)
  from nok have id: "ID node = key" by (simp add: nodeOk_def)
  from ok have la: "list_all nodeOk (NodesByID mg)" by (simp add: storeOk_def)
  note exok = nodeOk_lookup[OF la Some]
  from exok(2) obtain e where e: "Properties ex = Some e" by auto
  from exok(3) e have de: "distinct (map fst e)" by (simp add: wf_gomap_def wf_props_def)
  from mergeProperties_Some[of "entries (Properties node)" e] de obtain e' where
    e': "mergeProperties (entries (Properties node)) (Some e) = Inr (Some e')"
    and d': "distinct (map fst e')"
    and m: "\<forall>k. map_of e' k =
        (case map_of e k of Some v \<Rightarrow> Some v | None \<Rightarrow> map_of (entries (Properties node)) k)"
    by blast
  let ?n1 = "ex\<lparr>Properties := Some e'\<rparr>"
  let ?mg1 = "mg\<lparr>NodesByID := AList.update key ?n1 (NodesByID mg)\<rparr>"
  have "mergeNodes ((key, node) # rest) mg = mergeNodes rest ?mg1"
    using Some e e' by (simp add: id)
  moreover have "nodeOk (key, ?n1)"
    using exok(1) d' by (simp add: nodeOk_def wf_gomap_def wf_props_def)
  then have "storeOk ?mg1"
    using ok by (simp add: storeOk_def distinct_update list_all_update)
  moreover have "\<forall>id. id \<noteq> key \<longrightarrow> map_of (NodesByID ?mg1) id = map_of (NodesByID mg) id"
    by (simp add: update_conv')
  moreover have "map_of (NodesByID ?mg1) key = Some ?n1" by (simp add: update_conv')
  moreover have "\<forall>k. lookup (Properties ?n1) k = firstWins (Properties ex) (Properties node) k"
    using m by (simp add: lookup_def firstWins_def e split: option.splits)
  ultimately show ?thesis using Some by (intro that[of ?mg1 ?n1]) simp_all
qed


lemma mergeNodes_spec:
  assumes "distinct (map fst nodes)" "list_all nodeOk nodes" "storeOk mg"
  shows "\<exists>m. mergeNodes nodes mg = Inr m \<and> storeOk m \<and>
     Edges m = Edges mg \<and> EdgeKeys m = EdgeKeys mg \<and>
     (\<forall>id. map_of nodes id = None \<longrightarrow> map_of (NodesByID m) id = map_of (NodesByID mg) id) \<and>
     (\<forall>id node. map_of nodes id = Some node \<and> map_of (NodesByID mg) id = None \<longrightarrow>
        map_of (NodesByID m) id = Some node) \<and>
     (\<forall>id node ex. map_of nodes id = Some node \<and> map_of (NodesByID mg) id = Some ex \<longrightarrow>
        (\<exists>n'. map_of (NodesByID m) id = Some n' \<and> Kinds n' = Kinds ex \<and> ID n' = ID ex \<and>
           (\<forall>k. lookup (Properties n') k = firstWins (Properties ex) (Properties node) k)))"
  using assms
proof (induction nodes arbitrary: mg)
  case Nil
  then show ?case by simp
next
  case (Cons a rest)
  obtain key node where a: "a = (key, node)" by (cases a)
  from Cons.prems a have nok: "nodeOk (key, node)" and drest: "distinct (map fst rest)"
    and lrest: "list_all nodeOk rest" and fresh: "map_of rest key = None"
    by (auto simp: map_of_eq_None_iff)
  from merge_step[OF Cons.prems(3) nok, of rest] obtain mg1 n1 where
    step: "mergeNodes ((key, node) # rest) mg = mergeNodes rest mg1"
    and ok1: "storeOk mg1" and e1: "Edges mg1 = Edges mg" and k1: "EdgeKeys mg1 = EdgeKeys mg"
    and other: "\<forall>id. id \<noteq> key \<longrightarrow> map_of (NodesByID mg1) id = map_of (NodesByID mg) id"
    and here: "map_of (NodesByID mg1) key = Some n1"
    and new: "map_of (NodesByID mg) key = None \<longrightarrow> n1 = node"
    and old: "\<forall>ex. map_of (NodesByID mg) key = Some ex \<longrightarrow>
        Kinds n1 = Kinds ex \<and> ID n1 = ID ex \<and>
        (\<forall>k. lookup (Properties n1) k = firstWins (Properties ex) (Properties node) k)"
    by blast
  from Cons.IH[OF drest lrest ok1] obtain m where
    run: "mergeNodes rest mg1 = Inr m" and okm: "storeOk m"
    and em: "Edges m = Edges mg1" and km: "EdgeKeys m = EdgeKeys mg1"
    and i1: "\<forall>id. map_of rest id = None \<longrightarrow> map_of (NodesByID m) id = map_of (NodesByID mg1) id"
    and i2: "\<forall>id node. map_of rest id = Some node \<and> map_of (NodesByID mg1) id = None \<longrightarrow>
        map_of (NodesByID m) id = Some node"
    and i3: "\<forall>id node ex. map_of rest id = Some node \<and> map_of (NodesByID mg1) id = Some ex \<longrightarrow>
        (\<exists>n'. map_of (NodesByID m) id = Some n' \<and> Kinds n' = Kinds ex \<and> ID n' = ID ex \<and>
           (\<forall>k. lookup (Properties n') k = firstWins (Properties ex) (Properties node) k))"
    by blast
  have mkey: "map_of (NodesByID m) key = Some n1"
    using i1 fresh here by simp
  have g1: "map_of (a # rest) id = None \<longrightarrow> map_of (NodesByID m) id = map_of (NodesByID mg) id" for id
    using i1 other by (auto simp: a split: if_splits)
  have g2: "map_of (a # rest) id = Some nd \<and> map_of (NodesByID mg) id = None \<longrightarrow>
        map_of (NodesByID m) id = Some nd" for id nd
  proof (cases "id = key")
    case True
    then show ?thesis using mkey new by (auto simp: a)
  next
    case False
    then show ?thesis using i2 other by (auto simp: a)
  qed
  have g3: "map_of (a # rest) id = Some nd \<and> map_of (NodesByID mg) id = Some ex \<longrightarrow>
        (\<exists>n'. map_of (NodesByID m) id = Some n' \<and> Kinds n' = Kinds ex \<and> ID n' = ID ex \<and>
           (\<forall>k. lookup (Properties n') k = firstWins (Properties ex) (Properties nd) k))" for id nd ex
  proof (cases "id = key")
    case True
    then show ?thesis using mkey old by (auto simp: a)
  next
    case False
    then have "map_of (a # rest) id = map_of rest id"
      and "map_of (NodesByID mg1) id = map_of (NodesByID mg) id"
      using other by (simp_all add: a)
    then show ?thesis using i3[rule_format, of id nd ex] by auto
  qed
  have "mergeNodes (a # rest) mg = Inr m" using step run by (simp add: a)
  moreover have "Edges m = Edges mg" "EdgeKeys m = EdgeKeys mg"
    using em e1 km k1 by simp_all
  ultimately show ?case using okm g1 g2 g3 by blast
qed

lemma mergeEdges_fields:
  "Edges (mergeEdges es mg) = Edges mg @ es" "NodesByID (mergeEdges es mg) = NodesByID mg"
  "EdgeKeys (mergeEdges es mg) = EdgeKeys mg"
  unfolding mergeEdges_def by (induction es arbitrary: mg) simp_all


text \<open>
  Claim C8. Merging the graph \<open>gb\<close> of one more source into \<open>mergedGraph\<close>: a node only
  \<open>gb\<close> has is stored as it is; a node both have keeps the target's kinds and every
  property value the target has, and gets from \<open>gb\<close> only the keys the target lacks;
  a node only the target has stays; and all edges of \<open>gb\<close> are appended after the
  target's, whatever \<^verbatim>\<open>EdgeKeys\<close> holds, which stays as it was. On stores as the
  collectors build them the merge never panics.
\<close>

theorem mergeGraph_first_source_wins:
  "storeOk gb \<and> storeOk mergedGraph \<longrightarrow>
     (\<exists>m. mergeGraph gb mergedGraph = Inr m \<and>
        Edges m = Edges mergedGraph @ Edges gb \<and> EdgeKeys m = EdgeKeys mergedGraph \<and>
        (\<forall>id node. map_of (NodesByID gb) id = Some node \<and>
            map_of (NodesByID mergedGraph) id = None \<longrightarrow>
            map_of (NodesByID m) id = Some node) \<and>
        (\<forall>id node ex. map_of (NodesByID gb) id = Some node \<and>
            map_of (NodesByID mergedGraph) id = Some ex \<longrightarrow>
            (\<exists>n'. map_of (NodesByID m) id = Some n' \<and> Kinds n' = Kinds ex \<and> ID n' = ID ex \<and>
               (\<forall>k. lookup (Properties n') k =
                  firstWins (Properties ex) (Properties node) k))) \<and>
        (\<forall>id. map_of (NodesByID gb) id = None \<longrightarrow>
            map_of (NodesByID m) id = map_of (NodesByID mergedGraph) id))"
proof
  assume ok: "storeOk gb \<and> storeOk mergedGraph"
  then have "distinct (map fst (NodesByID gb))" "list_all nodeOk (NodesByID gb)"
    "storeOk mergedGraph"
    by (simp_all add: storeOk_def)
  from mergeNodes_spec[OF this] obtain m0 where
    run: "mergeNodes (NodesByID gb) mergedGraph = Inr m0"
    and e: "Edges m0 = Edges mergedGraph" and k: "EdgeKeys m0 = EdgeKeys mergedGraph"
    and i1: "\<forall>id. map_of (NodesByID gb) id = None \<longrightarrow>
        map_of (NodesByID m0) id = map_of (NodesByID mergedGraph) id"
    and i2: "\<forall>id node. map_of (NodesByID gb) id = Some node \<and>
        map_of (NodesByID mergedGraph) id = None \<longrightarrow> map_of (NodesByID m0) id = Some node"
    and i3: "\<forall>id node ex. map_of (NodesByID gb) id = Some node \<and>
        map_of (NodesByID mergedGraph) id = Some ex \<longrightarrow>
        (\<exists>n'. map_of (NodesByID m0) id = Some n' \<and> Kinds n' = Kinds ex \<and> ID n' = ID ex \<and>
           (\<forall>k. lookup (Properties n') k = firstWins (Properties ex) (Properties node) k))"
    by blast
  let ?m = "mergeEdges (Edges gb) m0"
  have "mergeGraph gb mergedGraph = Inr ?m" using run by (simp add: mergeGraph_def)
  moreover have "Edges ?m = Edges mergedGraph @ Edges gb" by (simp add: mergeEdges_fields e)
  moreover have "EdgeKeys ?m = EdgeKeys mergedGraph" by (simp add: mergeEdges_fields k)
  moreover have "NodesByID ?m = NodesByID m0" by (simp add: mergeEdges_fields)
  ultimately show "\<exists>m. mergeGraph gb mergedGraph = Inr m \<and>
        Edges m = Edges mergedGraph @ Edges gb \<and> EdgeKeys m = EdgeKeys mergedGraph \<and>
        (\<forall>id node. map_of (NodesByID gb) id = Some node \<and>
            map_of (NodesByID mergedGraph) id = None \<longrightarrow>
            map_of (NodesByID m) id = Some node) \<and>
        (\<forall>id node ex. map_of (NodesByID gb) id = Some node \<and>
            map_of (NodesByID mergedGraph) id = Some ex \<longrightarrow>
            (\<exists>n'. map_of (NodesByID m) id = Some n' \<and> Kinds n' = Kinds ex \<and> ID n' = ID ex \<and>
               (\<forall>k. lookup (Properties n') k =
                  firstWins (Properties ex) (Properties node) k))) \<and>
        (\<forall>id. map_of (NodesByID gb) id = None \<longrightarrow>
            map_of (NodesByID m) id = map_of (NodesByID mergedGraph) id)"
    using i1 i2 i3 by (intro exI[of _ ?m]) simp
qed

text \<open>
  The two sample sources: the folder keeps the first name and gains \<^verbatim>\<open>moid\<close>, the new
  node is copied, and the edge both sources hold appears twice.
\<close>

lemma sample_stores_ok: "storeOk secondSource \<and> storeOk firstSource"
  by (simp add: storeOk_def nodeOk_def firstSource_def secondSource_def wf_gomap_def wf_props_def)

lemma sample_merge_result: "mergeGraph secondSource firstSource = Inr mergedSample"
  by (simp add: mergeGraph_def mergeEdges_def firstSource_def secondSource_def mergedSample_def
      lookup_def assign_def)

theorem mergeGraph_first_source_wins_witness:
  "mergeGraph secondSource firstSource = Inr mergedSample \<and>
   (\<exists>m. mergeGraph secondSource firstSource = Inr m \<and>
        Edges m = Edges firstSource @ Edges secondSource \<and> EdgeKeys m = EdgeKeys firstSource \<and>
        (\<forall>id node. map_of (NodesByID secondSource) id = Some node \<and>
            map_of (NodesByID firstSource) id = None \<longrightarrow>
            map_of (NodesByID m) id = Some node) \<and>
        (\<forall>id node ex. map_of (NodesByID secondSource) id = Some node \<and>
            map_of (NodesByID firstSource) id = Some ex \<longrightarrow>
            (\<exists>n'. map_of (NodesByID m) id = Some n' \<and> Kinds n' = Kinds ex \<and> ID n' = ID ex \<and>
               (\<forall>k. lookup (Properties n') k =
                  firstWins (Properties ex) (Properties node) k))) \<and>
        (\<forall>id. map_of (NodesByID secondSource) id = None \<longrightarrow>
            map_of (NodesByID m) id = map_of (NodesByID firstSource) id))"
proof
  show "mergeGraph secondSource firstSource = Inr mergedSample" by (rule sample_merge_result)
  show "\<exists>m. mergeGraph secondSource firstSource = Inr m \<and>
        Edges m = Edges firstSource @ Edges secondSource \<and> EdgeKeys m = EdgeKeys firstSource \<and>
        (\<forall>id node. map_of (NodesByID secondSource) id = Some node \<and>
            map_of (NodesByID firstSource) id = None \<longrightarrow>
            map_of (NodesByID m) id = Some node) \<and>
        (\<forall>id node ex. map_of (NodesByID secondSource) id = Some node \<and>
            map_of (NodesByID firstSource) id = Some ex \<longrightarrow>
            (\<exists>n'. map_of (NodesByID m) id = Some n' \<and> Kinds n' = Kinds ex \<and> ID n' = ID ex \<and>
               (\<forall>k. lookup (Properties n') k =
                  firstWins (Properties ex) (Properties node) k))) \<and>
        (\<forall>id. map_of (NodesByID secondSource) id = None \<longrightarrow>
            map_of (NodesByID m) id = map_of (NodesByID firstSource) id)"
    using mergeGraph_first_source_wins[of secondSource firstSource] sample_stores_ok
    by (rule mp)
qed


text \<open>
  \<^const>\<open>storeOk\<close> holds of the empty store and is kept by \<^verbatim>\<open>AddEdge\<close> and by every
  \<^verbatim>\<open>EnsureNode\<close> call that passes an initialised map, which then cannot panic.
\<close>

lemma storeOk_NewGraphBuilder: "storeOk NewGraphBuilder"
  by (simp add: storeOk_def NewGraphBuilder_def)

lemma storeOk_AddEdge: "storeOk gb \<Longrightarrow> storeOk (AddEdge k s e P gb)"
  by (simp add: storeOk_def)

lemma storeOk_EnsureNode:
  assumes "storeOk gb" "wf_props al"
  shows "\<exists>gb'. EnsureNode ks X (Some al) gb = Inr gb' \<and> storeOk gb'"
proof (cases "map_of (NodesByID gb) X")
  case None
  have "nodeOk (X, \<lparr>Kinds = map FormatNodeKind ks, ID = X, Properties = Some al\<rparr>)"
    using assms(2) by (simp add: nodeOk_def wf_gomap_def)
  then show ?thesis
    using assms(1) None by (simp add: EnsureNode_new storeOk_def distinct_update list_all_update)
next
  case (Some n)
  from assms(1) have la: "list_all nodeOk (NodesByID gb)" by (simp add: storeOk_def)
  note nok = nodeOk_lookup[OF la Some]
  from nok(2) obtain ex where ex: "Properties n = Some ex" by auto
  from nok(3) ex have "distinct (map fst ex)" by (simp add: wf_gomap_def wf_props_def)
  then have "distinct (map fst (fold (\<lambda>(k, v). AList.update k v) al ex))"
    by (rule distinct_fold_update)
  then have "nodeOk (X, n\<lparr>Kinds := fst (unionKinds ks (Kinds n, kindMapOf (Kinds n))),
           Properties := Some (fold (\<lambda>(k, v). AList.update k v) al ex)\<rparr>)"
    using nok(1) by (simp add: nodeOk_def wf_gomap_def wf_props_def)
  then show ?thesis
    using assms(1) by (simp add: EnsureNode_existing[OF Some ex] storeOk_def distinct_update
        list_all_update)
qed

section \<open>The byte-order mark of the output file\<close>

lemma take3_bom: "take 3 (bom @ json) = bom"
  by (simp add: bom_def)

lemma encodeOutput_first: "take 3 (encodeOutput j) \<noteq> bom"
  by (simp add: encodeOutput_def bom_def)

text \<open>
  Claim C9. The save step of \<^verbatim>\<open>vCenterHoundGo/main.go\<close> writes the three bytes EF BB BF
  and then the JSON document. \<^verbatim>\<open>output.WriteToFile\<close>, which writes the output document for
  the collect and process modes of the \<^verbatim>\<open>internal\<close> packages, writes the JSON object alone:
  the file starts with an opening brace and has no byte-order mark.
\<close>

theorem output_bom_only_in_main:
  "(writable outPath \<longrightarrow>
      saveWithBOM (Some json) writable outPath fs = Inr (fs(outPath \<mapsto> bom @ json)) \<and>
      take 3 (bom @ json) = bom \<and> drop 3 (bom @ json) = json) \<and>
   (creatable filename \<longrightarrow>
      WriteToFile creatable (Some j) filename fs = (None, fs(filename \<mapsto> encodeOutput j)) \<and>
      take 1 (encodeOutput j) = ''{'' \<and> take 3 (encodeOutput j) \<noteq> bom)"
  by (simp add: saveWithBOM_def WriteToFile_def take3_bom encodeOutput_first)
     (simp add: bom_def encodeOutput_def)

text \<open>C9 for a small document written to a fresh directory.\<close>

theorem output_bom_only_in_main_witness:
  "saveWithBOM (Some ''{}'') anyPath ''vcenter_graph.json'' noFiles =
     Inr (noFiles(''vcenter_graph.json'' \<mapsto> bom @ ''{}'')) \<and>
   take 3 (bom @ ''{}'') = bom \<and>
   WriteToFile anyPath (Some ''{}'') ''vcenter_graph.json'' noFiles =
     (None, noFiles(''vcenter_graph.json'' \<mapsto> encodeOutput ''{}'')) \<and>
   take 3 (encodeOutput ''{}'') \<noteq> bom"
proof -
  have h: "anyPath ''vcenter_graph.json''" by (simp add: anyPath_def)
  from output_bom_only_in_main[of anyPath "''vcenter_graph.json''" "''{}''" noFiles anyPath
      "''vcenter_graph.json''" "''{}''"] h
  show ?thesis by simp
qed

text \<open>The file \<^verbatim>\<open>output.WriteToFile\<close> writes does not start with the byte-order mark.\<close>

theorem WriteToFile_no_bom_counterexample:
  "snd (WriteToFile anyPath (Some ''{}'') ''vcenter_graph.json'' noFiles) ''vcenter_graph.json'' =
     Some (''{'' @ [CHR 0x0A] @ ''  '' @ [CHR 0x22] @ ''graph'' @ [CHR 0x22] @ '': {}''
             @ [CHR 0x0A] @ ''}'' @ [CHR 0x0A]) \<and>
   take 3 (''{'' @ [CHR 0x0A] @ ''  '' @ [CHR 0x22] @ ''graph'' @ [CHR 0x22] @ '': {}''
             @ [CHR 0x0A] @ ''}'' @ [CHR 0x0A]) \<noteq> [CHR 0xEF, CHR 0xBB, CHR 0xBF]"
  by (simp add: WriteToFile_def anyPath_def encodeOutput_def)

end
